theory Spec2Isabelle
  imports Main "HOL-Library.Word"
begin

section \<open>The Commodore 64 universal USB keyboard: scan, debounce, dispatch\<close>

text \<open>
  A shallow embedding of \<^verbatim>\<open>c64_universal_usb_kb.ino\<close>. The sketch keeps all of its
  state in global variables; here they are the fields of one record, and every
  function of the sketch takes the record and returns it updated. Calls to the
  outside (the HID keyboard, the EEPROM, pins, \<^verbatim>\<open>delay\<close>) are appended to a log
  in program order. What the outside returns (the level of a column pin, the
  value of \<^verbatim>\<open>millis()\<close>, the stored EEPROM byte) is an input of the model.
\<close>

subsection \<open>Keymap targets and constants\<close>

abbreviation (input) ASCII :: int where "ASCII \<equiv> 1"
abbreviation (input) VICE2_BMC64 :: int where "VICE2_BMC64 \<equiv> 2"
abbreviation (input) VICE3 :: int where "VICE3 \<equiv> 3"
abbreviation (input) MISTER :: int where "MISTER \<equiv> 4"
abbreviation (input) MAXTARGETS :: int where "MAXTARGETS \<equiv> 4"
abbreviation (input) BLINK_RATE :: nat where "BLINK_RATE \<equiv> 75"
abbreviation (input) LED_START_DELAY :: nat where "LED_START_DELAY \<equiv> 1000"

text \<open>\<^verbatim>\<open>bool allowBlink = true\<close> and \<^verbatim>\<open>int debounceDelay = 5\<close> are never assigned.\<close>

abbreviation (input) allowBlink :: bool where "allowBlink \<equiv> True"
abbreviation (input) debounceDelay :: "32 word" where "debounceDelay \<equiv> 5"

definition rowPinMap :: "nat list" where
  "rowPinMap = [9, 3, 4, 5, 6, 7, 8, 2]"

definition colPinMap :: "nat list" where
  "colPinMap = [10, 16, 14, 21, 18, 19, 20, 15, 1]"

subsection \<open>Keys of the HID library\<close>

text \<open>
  The macros of \<^verbatim>\<open>HID-Project.h\<close> that the sketch names. The header is not part of
  the repository, so the macros stay symbolic. (No statement below depends on two
  of them being different keys on the wire.)
\<close>

datatype hidkey =
    KEY_END | KEY_HOME | KEY_BACKSPACE | KEY_TAB | KEY_PAGE_UP | KEY_PAGE_DOWN
  | KEY_ESC | KEY_ENTER | KEY_RETURN | KEY_INSERT | KEY_DELETE
  | KEY_LEFT_SHIFT | KEY_RIGHT_SHIFT | KEY_LEFT_CTRL | KEY_LEFT_ALT | KEY_LEFT_WINDOWS
  | KEY_UP_ARROW | KEY_DOWN_ARROW | KEY_LEFT_ARROW | KEY_RIGHT_ARROW
  | KEY_F1 | KEY_F2 | KEY_F3 | KEY_F4 | KEY_F5 | KEY_F6 | KEY_F7 | KEY_F8
  | KEY_F9 | KEY_F10 | KEY_F11 | KEY_F12

text \<open>
  An entry of \<^verbatim>\<open>char keymap[80]\<close>: a character literal, or the value of a macro
  stored into the \<^verbatim>\<open>char\<close>. \<open>Unset\<close> is the zero of the never-assigned entries.
\<close>

datatype keyval = Unset | Lit char | MacroValue hidkey

text \<open>
  The argument of \<^verbatim>\<open>BootKeyboard.press\<close> and \<^verbatim>\<open>BootKeyboard.release\<close>: a key
  named by its macro, or a \<^verbatim>\<open>char\<close> passed as data (a literal or a keymap entry).
\<close>

datatype code = Named hidkey | Data keyval

abbreviation Chr :: "char \<Rightarrow> code" where "Chr c \<equiv> Data (Lit c)"

datatype pin = Pin nat | LED_BUILTIN_RX | LED_BUILTIN_TX

datatype pin_mode = INPUT | OUTPUT | INPUT_PULLUP

datatype level = LOW | HIGH

text \<open>The calls to the outside, in the order the program makes them.\<close>

datatype effect =
    KbBegin
  | KbPress code
  | KbRelease code
  | KbReleaseAll
  | EepromWrite nat "8 word"
  | Delay nat
  | PinMode pin pin_mode
  | DigitalWrite pin level

text \<open>A call of \<^verbatim>\<open>press\<close> or \<^verbatim>\<open>release\<close> made by the scan loop, with its argument.\<close>

datatype key_event = KeyDown nat | KeyUp nat

fun event_key :: "key_event \<Rightarrow> nat" where
  "event_key (KeyDown k) = k"
| "event_key (KeyUp k) = k"

subsection \<open>The global state\<close>

text \<open>
  The arrays of 80 entries are functions on the index; the scan loop only forms
  indices \<open>col + row * 10\<close> with \<open>row < 8\<close> and \<open>col < 9\<close>, all below 80 (and
  below 256, so passing \<^verbatim>\<open>thisKey\<close> as \<^verbatim>\<open>uint8_t\<close> keeps its value).
  \<^verbatim>\<open>long lastDebounceTime[80]\<close> holds values of \<^verbatim>\<open>millis()\<close>, 32 bits wide.
  \<open>eeprom\<close> is the content of the EEPROM, \<open>log\<close> the calls to the outside and
  \<open>calls\<close> the dispatched key events (where the DEBUG build prints
  \<^verbatim>\<open>PRESS\<close> and \<^verbatim>\<open>RELEASE\<close>).
\<close>

record state =
  thisKey :: nat
  isKeyDown :: bool
  lShifted :: bool
  rShifted :: bool
  ctrlPressed :: bool
  cmdrPressed :: bool
  enterMenu :: bool
  pageScr :: bool
  clrPressed :: bool
  lastKeyState :: "nat \<Rightarrow> bool"
  lastDebounceTime :: "nat \<Rightarrow> 32 word"
  shifted :: "nat \<Rightarrow> bool"
  keymap :: "nat \<Rightarrow> keyval"
  activeLED :: nat
  target :: int
  eeprom :: "nat \<Rightarrow> 8 word"
  log :: "effect list"
  calls :: "key_event list"

definition emit :: "effect \<Rightarrow> state \<Rightarrow> state" where
  "emit x s = s\<lparr>log := log s @ [x]\<rparr>"

definition kb_press :: "code \<Rightarrow> state \<Rightarrow> state" where
  "kb_press c = emit (KbPress c)"

definition kb_release :: "code \<Rightarrow> state \<Rightarrow> state" where
  "kb_release c = emit (KbRelease c)"

definition delay :: "nat \<Rightarrow> state \<Rightarrow> state" where
  "delay ms = emit (Delay ms)"

definition eeprom_write :: "nat \<Rightarrow> int \<Rightarrow> state \<Rightarrow> state" where
  "eeprom_write a v s =
     emit (EepromWrite a (word_of_int v)) (s\<lparr>eeprom := (eeprom s)(a := word_of_int v)\<rparr>)"

definition set_shifted :: "nat \<Rightarrow> bool \<Rightarrow> state \<Rightarrow> state" where
  "set_shifted key b s = s\<lparr>shifted := (shifted s)(key := b)\<rparr>"

text \<open>Statements in sequence.\<close>

fun exec :: "(state \<Rightarrow> state) list \<Rightarrow> state \<Rightarrow> state" where
  "exec [] s = s"
| "exec (f # fs) s = exec fs (f s)"

subsection \<open>\<^verbatim>\<open>setKeymap\<close>\<close>

definition setKeymap :: "state \<Rightarrow> state" where
  "setKeymap s =
    (let km0 = (keymap s)
       (71 := Lit (CHR 0x60), 70 := Lit CHR ''1'', 73 := Lit CHR ''2'',
        10 := Lit CHR ''3'', 13 := Lit CHR ''4'', 20 := Lit CHR ''5'',
        23 := Lit CHR ''6'', 30 := Lit CHR ''7'', 33 := Lit CHR ''8'',
        40 := Lit CHR ''9'', 43 := Lit CHR ''0'', 50 := Lit CHR ''-'',
        53 := Lit CHR ''='', 60 := MacroValue KEY_END, 63 := MacroValue KEY_HOME,
        0 := MacroValue KEY_BACKSPACE,
        72 := MacroValue KEY_TAB, 76 := Lit CHR ''q'', 11 := Lit CHR ''w'',
        16 := Lit CHR ''e'', 21 := Lit CHR ''r'', 26 := Lit CHR ''t'',
        31 := Lit CHR ''y'', 36 := Lit CHR ''u'', 41 := Lit CHR ''i'',
        46 := Lit CHR ''o'', 51 := Lit CHR ''p'', 56 := Lit CHR ''['',
        61 := Lit CHR '']'', 66 := Lit (CHR 0x5C), 68 := MacroValue KEY_PAGE_UP,
        77 := MacroValue KEY_ESC, 17 := MacroValue KEY_LEFT_SHIFT, 12 := Lit CHR ''a'',
        15 := Lit CHR ''s'', 22 := Lit CHR ''d'', 25 := Lit CHR ''f'',
        32 := Lit CHR ''g'', 35 := Lit CHR ''h'', 42 := Lit CHR ''j'',
        45 := Lit CHR ''k'', 52 := Lit CHR ''l'', 55 := Lit CHR '';'',
        62 := Lit (CHR 0x27), 65 := MacroValue KEY_PAGE_DOWN, 1 := MacroValue KEY_ENTER,
        75 := MacroValue KEY_LEFT_CTRL, 17 := MacroValue KEY_LEFT_SHIFT,
        14 := Lit CHR ''z'', 27 := Lit CHR ''x'', 24 := Lit CHR ''c'',
        37 := Lit CHR ''v'', 34 := Lit CHR ''b'', 47 := Lit CHR ''n'',
        44 := Lit CHR ''m'', 57 := Lit CHR '','', 54 := Lit CHR ''.'',
        67 := Lit CHR ''/'', 64 := MacroValue KEY_RIGHT_SHIFT,
        7 := MacroValue KEY_DOWN_ARROW, 2 := MacroValue KEY_RIGHT_ARROW,
        74 := Lit CHR '' '', 4 := MacroValue KEY_F1, 5 := MacroValue KEY_F3,
        6 := MacroValue KEY_F5, 3 := MacroValue KEY_F7);
       km =
        (if target s = ASCII then km0
           (50 := Lit CHR ''+'', 53 := Lit CHR ''-'', 60 := Lit (CHR 0x5C),
            72 := MacroValue KEY_LEFT_CTRL, 56 := Lit CHR ''@'', 61 := Lit CHR ''*'',
            66 := Lit CHR ''^'', 68 := MacroValue KEY_TAB, 55 := Lit CHR '':'',
            62 := Lit CHR '';'', 65 := Lit CHR ''='', 75 := MacroValue KEY_LEFT_ALT)
         else if target s = VICE2_BMC64 then km0
           (60 := MacroValue KEY_INSERT, 66 := MacroValue KEY_DELETE, 65 := Lit (CHR 0x5C))
         else if target s = MISTER then km0
           (50 := Lit CHR ''='', 53 := Lit CHR ''-'', 60 := Lit (CHR 0x5C),
            72 := MacroValue KEY_LEFT_CTRL, 66 := MacroValue KEY_F9,
            68 := MacroValue KEY_F11, 65 := MacroValue KEY_F10,
            75 := MacroValue KEY_LEFT_ALT)
         else km0)
     in s\<lparr>keymap := km\<rparr>)"

subsection \<open>Helpers of the dispatch\<close>

definition shiftedKey :: "state \<Rightarrow> bool" where
  "shiftedKey s = (lShifted s \<or> rShifted s)"

definition misterOrASCII :: "state \<Rightarrow> bool" where
  "misterOrASCII s = (target s = MISTER \<or> target s = ASCII)"

definition unshift :: "state \<Rightarrow> state" where
  "unshift s =
    (let s1 = (if lShifted s then kb_release (Named KEY_LEFT_SHIFT) s else s)
     in if rShifted s1 then kb_release (Named KEY_RIGHT_SHIFT) s1 else s1)"

text \<open>
  One pass of the loop of \<^verbatim>\<open>blinkLED\<close>: the onboard LED (pin 17) is switched by
  its pin mode, the external LED (pin 0) by its level.
\<close>

definition blink_once :: "state \<Rightarrow> state" where
  "blink_once s =
    exec [
      (\<lambda>s. if activeLED s \<noteq> 0 then emit (PinMode (Pin (activeLED s)) OUTPUT) s else s),
      (\<lambda>s. emit (DigitalWrite (Pin (activeLED s)) LOW) s),
      delay BLINK_RATE,
      (\<lambda>s. if activeLED s \<noteq> 0 then emit (PinMode (Pin (activeLED s)) INPUT) s
            else emit (DigitalWrite (Pin (activeLED s)) HIGH) s),
      delay BLINK_RATE] s"

text \<open>\<^verbatim>\<open>for (int blink = 0; blink < times; blink++)\<close>, counted down.\<close>

fun blink_loop :: "nat \<Rightarrow> state \<Rightarrow> state" where
  "blink_loop 0 s = s"
| "blink_loop (Suc n) s = blink_loop n (blink_once s)"

definition blinkLED :: "int \<Rightarrow> state \<Rightarrow> state" where
  "blinkLED count s = (if allowBlink then blink_loop (nat count) s else s)"

subsection \<open>\<^verbatim>\<open>setup\<close>\<close>

text \<open>
  The state before \<^verbatim>\<open>setup\<close> runs: C++ zero-initialises the globals; the EEPROM
  holds what an earlier power cycle left there.
\<close>

definition power_on :: "(nat \<Rightarrow> 8 word) \<Rightarrow> state" where
  "power_on ee =
    \<lparr>thisKey = 0, isKeyDown = False, lShifted = False, rShifted = False,
     ctrlPressed = False, cmdrPressed = False, enterMenu = False, pageScr = False,
     clrPressed = False, lastKeyState = (\<lambda>_. False), lastDebounceTime = (\<lambda>_. 0),
     shifted = (\<lambda>_. False), keymap = (\<lambda>_. Unset), activeLED = 0, target = 0,
     eeprom = ee, log = [], calls = []\<rparr>"

text \<open>
  \<open>led\<close> is what \<^verbatim>\<open>digitalRead(activeLED)\<close> returns while \<^verbatim>\<open>setup\<close> probes for the
  external LED. \<^verbatim>\<open>EEPROM.read\<close> returns a byte, so \<open>target\<close> starts in 0..255.
\<close>

definition setup_sketch :: "level \<Rightarrow> state \<Rightarrow> state" where
  "setup_sketch led s =
    exec [
      emit (PinMode LED_BUILTIN_RX INPUT),
      emit (PinMode LED_BUILTIN_TX INPUT),
      (\<lambda>s. s\<lparr>activeLED := 0\<rparr>),
      (\<lambda>s. emit (PinMode (Pin (activeLED s)) INPUT_PULLUP) s),
      (\<lambda>s. emit (DigitalWrite (Pin (activeLED s)) LOW) s),
      (\<lambda>s. if led = LOW
            then exec [emit (PinMode (Pin (activeLED s)) OUTPUT),
                       emit (DigitalWrite (Pin (activeLED s)) HIGH)] s
            else s\<lparr>activeLED := 17\<rparr>),
      emit KbBegin,
      emit KbReleaseAll,
      (\<lambda>s. s\<lparr>lastKeyState := (\<lambda>i. if i < 80 then False else lastKeyState s i)\<rparr>),
      exec (map (\<lambda>p. emit (PinMode (Pin p) INPUT_PULLUP)) rowPinMap),
      exec (map (\<lambda>p. emit (PinMode (Pin p) INPUT_PULLUP)) colPinMap),
      (\<lambda>s. s\<lparr>target := uint (eeprom s 0)\<rparr>),
      (\<lambda>s. if target s < 1 \<or> target s > MAXTARGETS
            then exec [(\<lambda>s. s\<lparr>target := 1\<rparr>), (\<lambda>s. eeprom_write 0 (target s) s)] s
            else s),
      setKeymap,
      delay LED_START_DELAY,
      (\<lambda>s. blinkLED (target s) s)] s"

subsection \<open>\<^verbatim>\<open>press\<close>\<close>

definition press :: "nat \<Rightarrow> state \<Rightarrow> state" where
  "press key s0 =
    (let s = s0\<lparr>calls := calls s0 @ [KeyDown key]\<rparr> in
     if key = 23 then
       (if shiftedKey s \<and> misterOrASCII s
        then exec [set_shifted key True, kb_press (Chr CHR ''&'')] s
        else kb_press (Data (keymap s key)) s)
     else if key = 30 then
       (if shiftedKey s then
          (let s = set_shifted key True s in
           if target s = MISTER then kb_press (Chr CHR ''^'') s
           else if target s = ASCII then exec [unshift, kb_press (Chr (CHR 0x27))] s
           else kb_press (Data (keymap s key)) s)
        else kb_press (Data (keymap s key)) s)
     else if key = 33 then
       (if shiftedKey s \<and> misterOrASCII s
        then exec [set_shifted key True, kb_press (Chr CHR ''('')] s
        else kb_press (Data (keymap s key)) s)
     else if key = 40 then
       (if shiftedKey s \<and> misterOrASCII s
        then exec [set_shifted key True, kb_press (Chr CHR '')'')] s
        else kb_press (Data (keymap s key)) s)
     else if key = 43 then
       exec [unshift, (\<lambda>s. kb_press (Data (keymap s key)) s)] s
     else if key = 0 then
       (if target s = ASCII \<and> shiftedKey s
        then exec [set_shifted key True, unshift, kb_press (Named KEY_DELETE)] s
        else kb_press (Named KEY_BACKSPACE) s)
     else if key = 1 then kb_press (Named KEY_RETURN) s
     else if key = 2 then
       (if shiftedKey s then
          exec [set_shifted key True,
                (\<lambda>s. if target s = ASCII then unshift s else s),
                kb_press (Named KEY_LEFT_ARROW)] s
        else kb_press (Named KEY_RIGHT_ARROW) s)
     else if key = 3 then
       (if target s = MISTER then
          (if cmdrPressed s then
             exec [(\<lambda>s. s\<lparr>enterMenu := True\<rparr>),
                   kb_release (Named KEY_LEFT_ALT),
                   delay 25,
                   kb_press (Named KEY_F12),
                   delay 25,
                   kb_press (Named KEY_LEFT_ALT)] s
           else kb_press (Named KEY_F7) s)
        else if target s = ASCII then
          (if cmdrPressed s then
             exec [(\<lambda>s. s\<lparr>enterMenu := True\<rparr>),
                   kb_release (Named KEY_LEFT_ALT),
                   kb_press (Named KEY_LEFT_WINDOWS)] s
           else if shiftedKey s then
             exec [set_shifted key True, unshift, kb_press (Named KEY_F8)] s
           else kb_press (Named KEY_F7) s)
        else kb_press (Named KEY_F7) s)
     else if key = 4 then
       (if cmdrPressed s then
          exec [
            (\<lambda>s. if ctrlPressed s then s\<lparr>target := 1\<rparr>
                  else if shiftedKey s then
                    (let s = s\<lparr>target := target s - 1\<rparr>
                     in if target s < 1 then s\<lparr>target := MAXTARGETS\<rparr> else s)
                  else
                    (let s = s\<lparr>target := target s + 1\<rparr>
                     in if target s > MAXTARGETS then s\<lparr>target := 1\<rparr> else s)),
            (\<lambda>s. eeprom_write 0 (target s) s),
            emit KbReleaseAll,
            setKeymap,
            (\<lambda>s. blinkLED (target s) s)] s
        else if target s = ASCII \<and> shiftedKey s then
          exec [set_shifted key True, unshift, kb_press (Named KEY_F2)] s
        else kb_press (Named KEY_F1) s)
     else if key = 5 then
       (if target s = ASCII \<and> shiftedKey s
        then exec [set_shifted key True, unshift, kb_press (Named KEY_F4)] s
        else kb_press (Named KEY_F3) s)
     else if key = 6 then
       (if target s = ASCII \<and> shiftedKey s
        then exec [set_shifted key True, unshift, kb_press (Named KEY_F6)] s
        else kb_press (Named KEY_F5) s)
     else if key = 7 then
       (if shiftedKey s then
          (let s = set_shifted key True s in
           if target s = ASCII then
             (let s = unshift s in
              if ctrlPressed s then
                exec [(\<lambda>s. s\<lparr>pageScr := True\<rparr>),
                      kb_release (Named KEY_LEFT_CTRL),
                      kb_press (Named KEY_PAGE_UP)] s
              else kb_press (Named KEY_UP_ARROW) s)
           else kb_press (Named KEY_UP_ARROW) s)
        else
          (if target s = ASCII then
             (if ctrlPressed s then
                exec [(\<lambda>s. s\<lparr>pageScr := True\<rparr>),
                      kb_release (Named KEY_LEFT_CTRL),
                      kb_press (Named KEY_PAGE_DOWN)] s
              else kb_press (Named KEY_DOWN_ARROW) s)
           else kb_press (Named KEY_DOWN_ARROW) s))
     else if key = 17 then
       exec [(\<lambda>s. s\<lparr>lShifted := True\<rparr>), kb_press (Named KEY_LEFT_SHIFT)] s
     else if key = 55 then
       (if target s = ASCII \<and> shiftedKey s
        then exec [set_shifted key True, unshift, kb_press (Chr CHR ''['')] s
        else kb_press (Data (keymap s key)) s)
     else if key = 56 then
       (if target s = ASCII \<and> shiftedKey s
        then exec [set_shifted key True, kb_press (Chr CHR ''{'')] s
        else kb_press (Data (keymap s key)) s)
     else if key = 60 then
       (if target s = VICE3 then kb_press (Named KEY_END) s
        else if target s = VICE2_BMC64 then kb_press (Named KEY_INSERT) s
        else kb_press (Data (keymap s key)) s)
     else if key = 61 then
       (if target s = ASCII \<and> shiftedKey s
        then exec [set_shifted key True, kb_press (Chr CHR ''}'')] s
        else kb_press (Data (keymap s key)) s)
     else if key = 62 then
       (if target s = ASCII \<and> shiftedKey s
        then exec [set_shifted key True, unshift, kb_press (Chr CHR '']'')] s
        else kb_press (Data (keymap s key)) s)
     else if key = 63 then
       (if target s = ASCII \<and> shiftedKey s
        then exec [(\<lambda>s. s\<lparr>clrPressed := True\<rparr>), unshift, kb_press (Named KEY_END)] s
        else kb_press (Named KEY_HOME) s)
     else if key = 64 then
       exec [(\<lambda>s. s\<lparr>rShifted := True\<rparr>), kb_press (Named KEY_RIGHT_SHIFT)] s
     else if key = 65 then
       (let s = (if target s = ASCII then unshift s else s) in
        if target s = VICE3 then kb_press (Named KEY_PAGE_DOWN) s
        else if target s = MISTER then kb_press (Named KEY_F10) s
        else kb_press (Data (keymap s key)) s)
     else if key = 66 then
       (if target s = MISTER then kb_press (Named KEY_F9) s
        else if target s = VICE2_BMC64 then kb_press (Named KEY_DELETE) s
        else kb_press (Data (keymap s key)) s)
     else if key = 68 then
       (if target s = MISTER then kb_press (Named KEY_F11) s
        else if target s = ASCII then kb_press (Named KEY_TAB) s
        else kb_press (Named KEY_PAGE_UP) s)
     else if key = 72 then
       (let s = s\<lparr>ctrlPressed := True\<rparr> in
        if target s = VICE3 \<or> target s = VICE2_BMC64 then kb_press (Named KEY_TAB) s
        else kb_press (Named KEY_LEFT_CTRL) s)
     else if key = 73 then
       (if target s = ASCII \<and> shiftedKey s
        then exec [set_shifted key True, kb_press (Chr (CHR 0x22))] s
        else kb_press (Data (keymap s key)) s)
     else if key = 75 then
       (let s = s\<lparr>cmdrPressed := True\<rparr> in
        if misterOrASCII s then kb_press (Named KEY_LEFT_ALT) s
        else kb_press (Named KEY_LEFT_CTRL) s)
     else if key = 77 then kb_press (Named KEY_ESC) s
     else kb_press (Data (keymap s key)) s)"

subsection \<open>\<^verbatim>\<open>release\<close>\<close>

text \<open>
  \<open>release_switch\<close> is the \<^verbatim>\<open>switch (key)\<close> statement of \<^verbatim>\<open>release\<close>, and
  \<open>release\<close> the whole function: the \<^verbatim>\<open>switch\<close>, then the two \<^verbatim>\<open>if\<close>
  statements that press the shift keys again; they read \<open>lShifted\<close> and
  \<open>rShifted\<close> as the \<^verbatim>\<open>switch\<close> left them. In the \<^verbatim>\<open>switch (target)\<close> of
  \<^verbatim>\<open>case 3\<close> the \<^verbatim>\<open>ASCII\<close> case has no \<^verbatim>\<open>break\<close>: control falls through
  into \<^verbatim>\<open>default\<close>.
\<close>

definition release_switch :: "nat \<Rightarrow> state \<Rightarrow> state" where
  "release_switch key s =
     (if key = 23 then
       (if shifted s key
        then exec [set_shifted key False, kb_release (Chr CHR ''&'')] s
        else kb_release (Data (keymap s key)) s)
     else if key = 30 then
       (if shifted s key then
          (let s = set_shifted key False s in
           if target s = MISTER then kb_release (Chr CHR ''^'') s
           else if target s = ASCII then kb_release (Chr (CHR 0x27)) s
           else kb_release (Data (keymap s key)) s)
        else kb_release (Data (keymap s key)) s)
     else if key = 33 then
       (if shifted s key
        then exec [set_shifted key False, kb_release (Chr CHR ''('')] s
        else kb_release (Data (keymap s key)) s)
     else if key = 40 then
       (if shifted s key
        then exec [set_shifted key False, kb_release (Chr CHR '')'')] s
        else kb_release (Data (keymap s key)) s)
     else if key = 0 then
       (if target s = ASCII \<and> shifted s key
        then exec [set_shifted key False, kb_release (Named KEY_DELETE)] s
        else kb_release (Named KEY_BACKSPACE) s)
     else if key = 1 then kb_release (Named KEY_RETURN) s
     else if key = 2 then
       (if shifted s key
        then exec [set_shifted key False, kb_release (Named KEY_LEFT_ARROW)] s
        else kb_release (Named KEY_RIGHT_ARROW) s)
     else if key = 3 then
       (if target s = MISTER then
          (if enterMenu s
           then exec [(\<lambda>s. s\<lparr>enterMenu := False\<rparr>), kb_release (Named KEY_F12)] s
           else kb_release (Named KEY_F7) s)
        else if target s = ASCII then
          exec [
            (\<lambda>s. if enterMenu s
                  then exec [(\<lambda>s. s\<lparr>enterMenu := False\<rparr>),
                             kb_release (Named KEY_LEFT_WINDOWS)] s
                  else if shifted s key
                  then exec [set_shifted key False, kb_release (Named KEY_F8)] s
                  else kb_release (Named KEY_F7) s),
            kb_release (Named KEY_F7)] s
        else kb_release (Named KEY_F7) s)
     else if key = 4 then
       (if target s = ASCII \<and> shifted s key
        then exec [set_shifted key False, kb_release (Named KEY_F2)] s
        else kb_release (Named KEY_F1) s)
     else if key = 5 then
       (if target s = ASCII \<and> shifted s key
        then exec [set_shifted key False, kb_release (Named KEY_F4)] s
        else kb_release (Named KEY_F3) s)
     else if key = 6 then
       (if target s = ASCII \<and> shifted s key
        then exec [set_shifted key False, kb_release (Named KEY_F6)] s
        else kb_release (Named KEY_F5) s)
     else if key = 7 then
       (if shifted s key then
          (let s = set_shifted key False s in
           if pageScr s \<and> target s = ASCII then
             exec [(\<lambda>s. s\<lparr>pageScr := False\<rparr>),
                   kb_release (Named KEY_PAGE_UP),
                   (\<lambda>s. if ctrlPressed s then kb_press (Named KEY_LEFT_CTRL) s else s)] s
           else kb_release (Named KEY_UP_ARROW) s)
        else
          (if pageScr s \<and> target s = ASCII then
             exec [(\<lambda>s. s\<lparr>pageScr := False\<rparr>),
                   kb_release (Named KEY_PAGE_DOWN),
                   (\<lambda>s. if ctrlPressed s then kb_press (Named KEY_LEFT_CTRL) s else s)] s
           else kb_release (Named KEY_DOWN_ARROW) s))
     else if key = 17 then
       exec [(\<lambda>s. s\<lparr>lShifted := False\<rparr>), kb_release (Named KEY_LEFT_SHIFT)] s
     else if key = 55 then
       (if target s = ASCII \<and> shifted s key
        then exec [set_shifted key False, kb_release (Chr CHR ''['')] s
        else kb_release (Data (keymap s key)) s)
     else if key = 56 then
       (if target s = ASCII \<and> shifted s key
        then exec [set_shifted key False, kb_release (Chr CHR ''{'')] s
        else kb_release (Data (keymap s key)) s)
     else if key = 60 then
       (if target s = VICE3 then kb_release (Named KEY_END) s
        else if target s = VICE2_BMC64 then kb_release (Named KEY_INSERT) s
        else kb_release (Data (keymap s key)) s)
     else if key = 61 then
       (if target s = ASCII \<and> shifted s key
        then exec [set_shifted key False, kb_release (Chr CHR ''}'')] s
        else kb_release (Data (keymap s key)) s)
     else if key = 62 then
       (if target s = ASCII \<and> shifted s key
        then exec [set_shifted key False, kb_release (Chr CHR '']'')] s
        else kb_release (Data (keymap s key)) s)
     else if key = 63 then
       (if clrPressed s \<and> target s = ASCII
        then exec [(\<lambda>s. s\<lparr>clrPressed := False\<rparr>), kb_release (Named KEY_END)] s
        else kb_release (Named KEY_HOME) s)
     else if key = 64 then
       exec [(\<lambda>s. s\<lparr>rShifted := False\<rparr>), kb_release (Named KEY_RIGHT_SHIFT)] s
     else if key = 65 then
       (if target s = VICE3 then kb_release (Named KEY_PAGE_DOWN) s
        else if target s = MISTER then kb_release (Named KEY_F10) s
        else kb_release (Data (keymap s key)) s)
     else if key = 66 then
       (if target s = MISTER then kb_release (Named KEY_F9) s
        else if target s = VICE2_BMC64 then kb_release (Named KEY_DELETE) s
        else kb_release (Data (keymap s key)) s)
     else if key = 68 then
       (if target s = MISTER then kb_release (Named KEY_F11) s
        else if target s = ASCII then kb_release (Named KEY_TAB) s
        else kb_release (Named KEY_PAGE_UP) s)
     else if key = 72 then
       (let s = s\<lparr>ctrlPressed := False\<rparr> in
        if target s = VICE3 \<or> target s = VICE2_BMC64 then kb_release (Named KEY_TAB) s
        else kb_release (Named KEY_LEFT_CTRL) s)
     else if key = 73 then
       (if target s = ASCII \<and> shifted s key
        then exec [set_shifted key False, kb_release (Chr (CHR 0x22))] s
        else kb_release (Data (keymap s key)) s)
     else if key = 75 then
       (let s = s\<lparr>cmdrPressed := False\<rparr> in
        if misterOrASCII s then kb_release (Named KEY_LEFT_ALT) s
        else kb_release (Named KEY_LEFT_CTRL) s)
     else if key = 77 then kb_release (Named KEY_ESC) s
     else kb_release (Data (keymap s key)) s)"

definition release :: "nat \<Rightarrow> state \<Rightarrow> state" where
  "release key s0 =
    (let s = s0\<lparr>calls := calls s0 @ [KeyUp key]\<rparr>;
         s1 = release_switch key s;
         s2 = (if lShifted s1 then kb_press (Named KEY_LEFT_SHIFT) s1 else s1)
     in if rShifted s2 then kb_press (Named KEY_RIGHT_SHIFT) s2 else s2)"

subsection \<open>\<^verbatim>\<open>loop\<close>\<close>

text \<open>
  What the outside returns during one call of \<^verbatim>\<open>loop\<close>: \<open>keyDown row col\<close>
  is \<^verbatim>\<open>!digitalRead(colPinMap[col])\<close> while the pin of \<open>row\<close> is driven low;
  \<open>millis_at row col\<close> is the value of \<^verbatim>\<open>millis()\<close> in the debounce test of that
  cell and \<open>millis_end row\<close> its value in the assignment after the column loop.
\<close>

record scan_input =
  keyDown :: "nat \<Rightarrow> nat \<Rightarrow> bool"
  millis_at :: "nat \<Rightarrow> nat \<Rightarrow> 32 word"
  millis_end :: "nat \<Rightarrow> 32 word"

text \<open>
  The column loop from \<open>col\<close> on. \<^verbatim>\<open>break\<close> returns the state as it is,
  \<^verbatim>\<open>continue\<close> goes on with the next column. The comparison
  \<^verbatim>\<open>millis() < lastDebounceTime[thisKey] + debounceDelay\<close> is between an
  \<^verbatim>\<open>unsigned long\<close> and a \<^verbatim>\<open>long\<close>, so it is unsigned, on 32 bits.
\<close>

function scan_cols :: "scan_input \<Rightarrow> nat \<Rightarrow> nat \<Rightarrow> state \<Rightarrow> state" where
  "scan_cols e row col s0 =
    (if col < 9 then
       (let s = s0\<lparr>thisKey := col + row * 10, isKeyDown := keyDown e row col\<rparr> in
        if thisKey s mod 10 = 8 \<and> thisKey s \<noteq> 68 then s
        else if millis_at e row col < lastDebounceTime s (thisKey s) + debounceDelay
        then scan_cols e row (col + 1) s
        else
          (let s1 = (if isKeyDown s \<and> \<not> lastKeyState s (thisKey s)
                     then press (thisKey s)
                            (s\<lparr>lastKeyState := (lastKeyState s)(thisKey s := True)\<rparr>)
                     else s);
               s2 = (if \<not> isKeyDown s1 \<and> lastKeyState s1 (thisKey s1)
                     then release (thisKey s1)
                            (s1\<lparr>lastKeyState := (lastKeyState s1)(thisKey s1 := False)\<rparr>)
                     else s1)
           in scan_cols e row (col + 1) s2))
     else s0)"
  by pat_completeness auto
termination
  by (relation "measure (\<lambda>(e, row, col, s). 9 - col)") auto

declare scan_cols.simps [simp del]

text \<open>The row loop from \<open>row\<close> on.\<close>

function scan_rows :: "scan_input \<Rightarrow> nat \<Rightarrow> state \<Rightarrow> state" where
  "scan_rows e row s =
    (if row < 8 then
       (let rowPin = rowPinMap ! row;
            s1 = exec [emit (PinMode (Pin rowPin) OUTPUT),
                       emit (DigitalWrite (Pin rowPin) LOW),
                       scan_cols e row 0,
                       (\<lambda>s. s\<lparr>lastDebounceTime :=
                               (lastDebounceTime s)(thisKey s := millis_end e row)\<rparr>),
                       emit (DigitalWrite (Pin rowPin) HIGH),
                       delay 1,
                       emit (PinMode (Pin rowPin) INPUT_PULLUP)] s
        in scan_rows e (row + 1) s1)
     else s)"
  by pat_completeness auto
termination
  by (relation "measure (\<lambda>(e, row, s). 8 - row)") auto

declare scan_rows.simps [simp del]

definition loop :: "scan_input \<Rightarrow> state \<Rightarrow> state" where
  "loop e s = scan_rows e 0 (s\<lparr>thisKey := 0, isKeyDown := False\<rparr>)"

text \<open>The sketch runs \<^verbatim>\<open>setup\<close> once and then \<^verbatim>\<open>loop\<close> again and again.\<close>

fun loops :: "scan_input list \<Rightarrow> state \<Rightarrow> state" where
  "loops [] s = s"
| "loops (e # es) s = loops es (loop e s)"

subsection \<open>Reading the log\<close>

text \<open>The effects emitted on the way from state \<open>s\<close> to the later state \<open>s'\<close>.\<close>

definition emitted :: "state \<Rightarrow> state \<Rightarrow> effect list" where
  "emitted s s' = drop (length (log s)) (log s')"

text \<open>The key events dispatched on the way from \<open>s\<close> to \<open>s'\<close>.\<close>

definition dispatched :: "state \<Rightarrow> state \<Rightarrow> key_event list" where
  "dispatched s s' = drop (length (calls s)) (calls s')"

fun is_eeprom_write :: "effect \<Rightarrow> bool" where
  "is_eeprom_write (EepromWrite a v) = True"
| "is_eeprom_write _ = False"

definition eeprom_writes :: "effect list \<Rightarrow> effect list" where
  "eeprom_writes l = filter is_eeprom_write l"

text \<open>
  What one pass of the loop of \<^verbatim>\<open>blinkLED\<close> sends to the LED on pin \<open>led\<close>: one
  pulse of light.
\<close>

definition blink_pulse :: "nat \<Rightarrow> effect list" where
  "blink_pulse led =
    (if led \<noteq> 0
     then [PinMode (Pin led) OUTPUT, DigitalWrite (Pin led) LOW, Delay BLINK_RATE,
           PinMode (Pin led) INPUT, Delay BLINK_RATE]
     else [DigitalWrite (Pin led) LOW, Delay BLINK_RATE,
           DigitalWrite (Pin led) HIGH, Delay BLINK_RATE])"

text \<open>A state the sketch is in after \<^verbatim>\<open>setup\<close> found the byte \<open>b\<close> in EEPROM slot 0.\<close>

definition booted :: "8 word \<Rightarrow> state" where
  "booted b = setup_sketch HIGH (power_on (\<lambda>_. b))"

text \<open>
  What the two \<^verbatim>\<open>if\<close> statements at the end of the loop body do for the cell
  \<open>k\<close> that reads \<open>d\<close>; \<open>scan_cols_process\<close> below shows that this is what
  \<open>scan_cols\<close> does for a cell that is neither filtered nor inside the debounce test.
\<close>

definition key_transition :: "bool \<Rightarrow> nat \<Rightarrow> state \<Rightarrow> state" where
  "key_transition d k s =
    (if d \<and> \<not> lastKeyState s k
     then press k (s\<lparr>lastKeyState := (lastKeyState s)(k := True)\<rparr>)
     else if \<not> d \<and> lastKeyState s k
     then release k (s\<lparr>lastKeyState := (lastKeyState s)(k := False)\<rparr>)
     else s)"

definition return_down :: scan_input where
  "return_down = \<lparr>keyDown = (\<lambda>row col. row = 0 \<and> col = 1),
                  millis_at = (\<lambda>row col. 2000), millis_end = (\<lambda>row. 2000)\<rparr>"

text \<open>What the two \<^verbatim>\<open>if\<close> statements at the end of \<^verbatim>\<open>release\<close> emit in state \<open>s\<close>.\<close>

definition shift_restore :: "state \<Rightarrow> effect list" where
  "shift_restore s =
    (if lShifted s then [KbPress (Named KEY_LEFT_SHIFT)] else [])
    @ (if rShifted s then [KbPress (Named KEY_RIGHT_SHIFT)] else [])"

text \<open>The codes of the key-downs, and of the key-ups, in a list of effects.\<close>

fun pressed_codes :: "effect list \<Rightarrow> code list" where
  "pressed_codes [] = []"
| "pressed_codes (KbPress c # l) = c # pressed_codes l"
| "pressed_codes (_ # l) = pressed_codes l"

fun released_codes :: "effect list \<Rightarrow> code list" where
  "released_codes [] = []"
| "released_codes (KbRelease c # l) = c # released_codes l"
| "released_codes (_ # l) = released_codes l"

text \<open>
  Modelled from the spec: the sink behind \<^verbatim>\<open>BootKeyboard\<close>, which is not part of the
  repository. Section 6 gives it \<open>press(symbol)\<close>, \<open>release(symbol)\<close> and
  \<open>releaseAll()\<close>: a code is down from its \<open>press\<close> until its \<open>release\<close> or the
  next \<open>releaseAll\<close>. \<open>sink_down l\<close> is the set of codes that are down after the
  effects \<open>l\<close>.
\<close>

fun sink_step :: "code set \<Rightarrow> effect \<Rightarrow> code set" where
  "sink_step K (KbPress c) = insert c K"
| "sink_step K (KbRelease c) = K - {c}"
| "sink_step K KbReleaseAll = {}"
| "sink_step K KbBegin = {}"
| "sink_step K _ = K"

definition sink_down :: "effect list \<Rightarrow> code set" where
  "sink_down l = foldl sink_step {} l"

text \<open>A shift key that the sketch does not count as held is not down in the sink.\<close>

definition shift_inv :: "state \<Rightarrow> bool" where
  "shift_inv s =
    ((\<not> lShifted s \<longrightarrow> Named KEY_LEFT_SHIFT \<notin> sink_down (log s))
     \<and> (\<not> rShifted s \<longrightarrow> Named KEY_RIGHT_SHIFT \<notin> sink_down (log s)))"

text \<open>The effects that the scan loop itself emits: pin operations and delays.\<close>

fun is_pin_or_delay :: "effect \<Rightarrow> bool" where
  "is_pin_or_delay (PinMode p m) = True"
| "is_pin_or_delay (DigitalWrite p v) = True"
| "is_pin_or_delay (Delay n) = True"
| "is_pin_or_delay _ = False"

text \<open>From \<open>s\<close> to \<open>s'\<close> the log and the list of dispatched events only grow, and
  unless position 4 was pressed on the way, the EEPROM is not written.\<close>

definition no_store_without_F1 :: "state \<Rightarrow> state \<Rightarrow> bool" where
  "no_store_without_F1 s s' =
    (\<exists>l cs. log s' = log s @ l \<and> calls s' = calls s @ cs
       \<and> (KeyDown 4 \<notin> set cs \<longrightarrow> eeprom_writes l = [] \<and> eeprom s' = eeprom s))"

text \<open>The key events that one pass of \<^verbatim>\<open>loop\<close> dispatches, read off the state \<open>s\<close>
  at the start of the pass: the cells are visited row by row, column 8 only in row 6;
  a cell inside the debounce test is skipped, any other cell whose reading differs
  from \<open>lastKeyState\<close> gives one event. \<open>loop_dispatched\<close> below proves that this is
  what \<open>loop\<close> dispatches.\<close>

definition cell_events :: "scan_input \<Rightarrow> state \<Rightarrow> nat \<Rightarrow> nat \<Rightarrow> key_event list" where
  "cell_events e s row col =
    (if millis_at e row col < lastDebounceTime s (col + row * 10) + debounceDelay then []
     else if keyDown e row col \<and> \<not> lastKeyState s (col + row * 10)
     then [KeyDown (col + row * 10)]
     else if \<not> keyDown e row col \<and> lastKeyState s (col + row * 10)
     then [KeyUp (col + row * 10)]
     else [])"

definition scanned_cols :: "nat \<Rightarrow> nat" where
  "scanned_cols row = (if row = 6 then 9 else 8)"

definition row_events :: "scan_input \<Rightarrow> state \<Rightarrow> nat \<Rightarrow> key_event list" where
  "row_events e s row = concat (map (cell_events e s row) [0..<scanned_cols row])"

definition sweep_events :: "scan_input \<Rightarrow> state \<Rightarrow> key_event list" where
  "sweep_events e s = concat (map (row_events e s) [0..<8])"


text \<open>The readings of a pass with RESTORE held: column 8 reads down in every row, every
  other cell reads up.\<close>

definition restore_grounded :: scan_input where
  "restore_grounded = \<lparr>keyDown = (\<lambda>row col. col = 8),
             millis_at = (\<lambda>row col. 2000), millis_end = (\<lambda>row. 2000)\<rparr>"

text \<open>The state after \<^verbatim>\<open>setup\<close> on target 1 with Commodore and Ctrl pressed.\<close>

definition reset_chord :: state where
  "reset_chord = press 72 (press 75 (booted 1))"

section \<open>Properties\<close>

subsection \<open>Basic facts\<close>

lemmas prim_defs = emit_def kb_press_def kb_release_def delay_def eeprom_write_def
  set_shifted_def unshift_def shiftedKey_def misterOrASCII_def

lemma blink_once_log: "log (blink_once s) = log s @ blink_pulse (activeLED s)"
  by (simp add: blink_once_def blink_pulse_def prim_defs)

lemma blink_once_rest: "blink_once s = s\<lparr>log := log (blink_once s)\<rparr>"
  by (simp add: blink_once_def prim_defs)

lemma blink_loop_eq:
  "blink_loop n s = s\<lparr>log := log s @ concat (replicate n (blink_pulse (activeLED s)))\<rparr>"
proof (induction n arbitrary: s)
  case 0
  show ?case by simp
next
  case (Suc n)
  have "blink_once s = s\<lparr>log := log s @ blink_pulse (activeLED s)\<rparr>"
    using blink_once_rest [of s] by (simp add: blink_once_log)
  then show ?case
    by (simp add: Suc.IH)
qed

lemma blinkLED_eq:
  "blinkLED c s = s\<lparr>log := log s @ concat (replicate (nat c) (blink_pulse (activeLED s)))\<rparr>"
  by (simp add: blinkLED_def blink_loop_eq)

lemma setKeymap_frame:
  "setKeymap s = s\<lparr>keymap := keymap (setKeymap s)\<rparr>"
  by (simp add: setKeymap_def Let_def)

lemma setKeymap_fields:
  "target (setKeymap s) = target s" "log (setKeymap s) = log s"
  "activeLED (setKeymap s) = activeLED s" "eeprom (setKeymap s) = eeprom s"
  "calls (setKeymap s) = calls s" "cmdrPressed (setKeymap s) = cmdrPressed s"
  "ctrlPressed (setKeymap s) = ctrlPressed s" "lShifted (setKeymap s) = lShifted s"
  "rShifted (setKeymap s) = rShifted s" "shifted (setKeymap s) = shifted s"
  "enterMenu (setKeymap s) = enterMenu s" "pageScr (setKeymap s) = pageScr s"
  "clrPressed (setKeymap s) = clrPressed s" "lastKeyState (setKeymap s) = lastKeyState s"
  "lastDebounceTime (setKeymap s) = lastDebounceTime s" "thisKey (setKeymap s) = thisKey s"
  "isKeyDown (setKeymap s) = isKeyDown s"
  by (simp_all add: setKeymap_def Let_def)

lemma emitted_append: "log s' = log s @ l \<Longrightarrow> emitted s s' = l"
  by (simp add: emitted_def)

lemma press_F1_target:
  "cmdrPressed s \<Longrightarrow>
   target (press 4 s) =
     (if ctrlPressed s then 1
      else if lShifted s \<or> rShifted s then (if target s - 1 < 1 then 4 else target s - 1)
      else (if target s + 1 > 4 then 1 else target s + 1))"
  by (simp add: press_def blinkLED_eq setKeymap_fields prim_defs Let_def)

lemma press_F1_cmdr:
  "cmdrPressed s \<Longrightarrow>
   press 4 s =
     exec [eeprom_write 0 (target (press 4 s)), emit KbReleaseAll, setKeymap,
           blinkLED (target (press 4 s))]
       (s\<lparr>calls := calls s @ [KeyDown 4], target := target (press 4 s)\<rparr>)"
  by (simp add: press_F1_target)
     (simp add: press_def blinkLED_eq setKeymap_fields prim_defs Let_def)

subsection \<open>The scan loop, step by step\<close>

lemma press_frame:
  "thisKey (press k s) = thisKey s" "isKeyDown (press k s) = isKeyDown s"
  "lastKeyState (press k s) = lastKeyState s"
  "lastDebounceTime (press k s) = lastDebounceTime s"
  "activeLED (press k s) = activeLED s"
  by (simp_all add: press_def blinkLED_eq setKeymap_fields prim_defs Let_def)

lemma release_frame:
  "thisKey (release k s) = thisKey s" "isKeyDown (release k s) = isKeyDown s"
  "lastKeyState (release k s) = lastKeyState s"
  "lastDebounceTime (release k s) = lastDebounceTime s"
  "activeLED (release k s) = activeLED s"
  by (simp_all add: release_def release_switch_def prim_defs Let_def)

lemma scan_cols_done: "\<not> col < 9 \<Longrightarrow> scan_cols e row col s = s"
  by (subst scan_cols.simps) simp

lemma filter_cond:
  "col < 9 \<Longrightarrow>
   ((col + row * 10) mod 10 = 8 \<and> col + row * 10 \<noteq> 68) = (col = 8 \<and> row \<noteq> (6::nat))"
  by auto

lemma scan_cols_break:
  "col = 8 \<Longrightarrow> row \<noteq> 6 \<Longrightarrow>
   scan_cols e row col s = s\<lparr>thisKey := col + row * 10, isKeyDown := keyDown e row col\<rparr>"
  by (subst scan_cols.simps) (simp add: Let_def)

lemma scan_cols_continue:
  assumes "col < 9" and "col = 8 \<longrightarrow> row = 6"
    and "millis_at e row col < lastDebounceTime s (col + row * 10) + 5"
  shows "scan_cols e row col s =
     scan_cols e row (col + 1) (s\<lparr>thisKey := col + row * 10, isKeyDown := keyDown e row col\<rparr>)"
  using assms by (subst scan_cols.simps) (auto simp add: Let_def)

lemma scan_cols_process:
  assumes "col < 9" and "col = 8 \<longrightarrow> row = 6"
    and "\<not> millis_at e row col < lastDebounceTime s (col + row * 10) + 5"
  shows "scan_cols e row col s =
     scan_cols e row (col + 1)
       (key_transition (keyDown e row col) (col + row * 10)
          (s\<lparr>thisKey := col + row * 10, isKeyDown := keyDown e row col\<rparr>))"
  using assms
  by (subst scan_cols.simps) (auto simp add: Let_def key_transition_def press_frame)

lemma scan_cols_rel:
  fixes R :: "state \<Rightarrow> state \<Rightarrow> bool"
  assumes R_refl: "\<And>s. R s s"
    and R_trans: "\<And>a b c. R a b \<Longrightarrow> R b c \<Longrightarrow> R a c"
    and cell: "\<And>s k d. R s (s\<lparr>thisKey := k, isKeyDown := d\<rparr>)"
    and down: "\<And>s k. k < 80 \<Longrightarrow> (k mod 10 = 8 \<longrightarrow> k = 68) \<Longrightarrow>
                 R s (press k (s\<lparr>lastKeyState := (lastKeyState s)(k := True)\<rparr>))"
    and up: "\<And>s k. k < 80 \<Longrightarrow> (k mod 10 = 8 \<longrightarrow> k = 68) \<Longrightarrow>
                 R s (release k (s\<lparr>lastKeyState := (lastKeyState s)(k := False)\<rparr>))"
    and row: "row < 8"
  shows "R s (scan_cols e row col s)"
  using row
proof (induction "9 - col" arbitrary: col s)
  case 0
  then show ?case by (simp add: scan_cols_done R_refl)
next
  case (Suc n)
  then have col: "col < 9" by simp
  let ?k = "col + row * 10"
  let ?x = "s\<lparr>thisKey := ?k, isKeyDown := keyDown e row col\<rparr>"
  have k80: "?k < 80" using col \<open>row < 8\<close> by simp
  have x: "R s ?x" by (rule cell)
  have IH: "R t (scan_cols e row (col + 1) t)" for t
    using Suc.hyps(1) [of "col + 1" t] Suc.hyps(2) \<open>row < 8\<close> by simp
  show ?case
  proof (cases "col = 8 \<and> row \<noteq> 6")
    case True
    then have "scan_cols e row col s = ?x" by (simp add: scan_cols_break)
    with x show ?thesis by simp
  next
    case False
    then have ok: "col = 8 \<longrightarrow> row = 6" by simp
    have ok': "?k mod 10 = 8 \<longrightarrow> ?k = 68"
      using filter_cond [OF col, of row] ok by blast
    show ?thesis
    proof (cases "millis_at e row col < lastDebounceTime s ?k + 5")
      case True
      from x IH have "R s (scan_cols e row (col + 1) ?x)" by (rule R_trans)
      then show ?thesis by (simp only: scan_cols_continue [OF col ok True])
    next
      case go: False
      let ?y = "key_transition (keyDown e row col) ?k ?x"
      have "R ?x ?y"
        unfolding key_transition_def
        using down [OF k80 ok', of ?x] up [OF k80 ok', of ?x] R_refl [of ?x]
        by (simp only: if_split) blast
      with x have "R s ?y" by (rule R_trans)
      from this IH have "R s (scan_cols e row (col + 1) ?y)" by (rule R_trans)
      then show ?thesis by (simp only: scan_cols_process [OF col ok go])
    qed
  qed
qed

lemma key_transition_frame:
  "thisKey (key_transition d k s) = thisKey s"
  "isKeyDown (key_transition d k s) = isKeyDown s"
  "lastDebounceTime (key_transition d k s) = lastDebounceTime s"
  "activeLED (key_transition d k s) = activeLED s"
  by (simp_all add: key_transition_def press_frame release_frame)

lemma key_transition_lastKeyState:
  "lastKeyState (key_transition d k s) = (lastKeyState s)(k := d)"
  by (auto simp add: key_transition_def press_frame release_frame fun_eq_iff)

text \<open>When the column loop is left, \<open>thisKey\<close> is the column-8 position of the row.\<close>

lemma scan_cols_thisKey:
  assumes "row < 8" and "col \<le> 8"
  shows "thisKey (scan_cols e row col s) = row * 10 + 8"
  using assms(2)
proof (induction "8 - col" arbitrary: col s)
  case 0
  then have c: "col = 8" by simp
  show ?case
  proof (cases "row = 6")
    case False
    with c show ?thesis by (simp add: scan_cols_break)
  next
    case True
    have col: "col < 9" and ok: "col = 8 \<longrightarrow> row = 6"
      using c True by simp_all
    show ?thesis
    proof (cases "millis_at e row col < lastDebounceTime s (col + row * 10) + 5")
      case True
      show ?thesis
        by (simp only: scan_cols_continue [OF col ok True])
           (simp add: c True scan_cols_done)
    next
      case False
      show ?thesis
        by (simp only: scan_cols_process [OF col ok False])
           (simp add: c True scan_cols_done key_transition_frame)
    qed
  qed
next
  case (Suc n)
  then have col: "col < 9" and ok: "col = 8 \<longrightarrow> row = 6" and nxt: "n = 8 - (col + 1)"
    and le: "col + 1 \<le> 8"
    by auto
  show ?case
  proof (cases "millis_at e row col < lastDebounceTime s (col + row * 10) + 5")
    case True
    show ?thesis
      by (simp only: scan_cols_continue [OF col ok True] Suc.hyps(1) [OF nxt le])
  next
    case False
    show ?thesis
      by (simp only: scan_cols_process [OF col ok False] Suc.hyps(1) [OF nxt le])
  qed
qed

lemma scan_rows_done: "\<not> row < 8 \<Longrightarrow> scan_rows e row s = s"
  by (subst scan_rows.simps) simp

lemma scan_rows_step:
  "row < 8 \<Longrightarrow>
   scan_rows e row s =
     scan_rows e (row + 1)
       (emit (PinMode (Pin (rowPinMap ! row)) INPUT_PULLUP)
         (emit (Delay 1)
           (emit (DigitalWrite (Pin (rowPinMap ! row)) HIGH)
             ((scan_cols e row 0
                 (emit (DigitalWrite (Pin (rowPinMap ! row)) LOW)
                   (emit (PinMode (Pin (rowPinMap ! row)) OUTPUT) s)))
              \<lparr>lastDebounceTime :=
                 (lastDebounceTime
                    (scan_cols e row 0
                      (emit (DigitalWrite (Pin (rowPinMap ! row)) LOW)
                        (emit (PinMode (Pin (rowPinMap ! row)) OUTPUT) s))))
                 (row * 10 + 8 := millis_end e row)\<rparr>))))"
  by (subst scan_rows.simps) (simp add: Let_def delay_def scan_cols_thisKey)

lemma scan_rows_rel:
  fixes R :: "state \<Rightarrow> state \<Rightarrow> bool"
  assumes R_refl: "\<And>s. R s s"
    and R_trans: "\<And>a b c. R a b \<Longrightarrow> R b c \<Longrightarrow> R a c"
    and cell: "\<And>s k d. R s (s\<lparr>thisKey := k, isKeyDown := d\<rparr>)"
    and down: "\<And>s k. k < 80 \<Longrightarrow> (k mod 10 = 8 \<longrightarrow> k = 68) \<Longrightarrow>
                 R s (press k (s\<lparr>lastKeyState := (lastKeyState s)(k := True)\<rparr>))"
    and up: "\<And>s k. k < 80 \<Longrightarrow> (k mod 10 = 8 \<longrightarrow> k = 68) \<Longrightarrow>
                 R s (release k (s\<lparr>lastKeyState := (lastKeyState s)(k := False)\<rparr>))"
    and out: "\<And>s x. is_pin_or_delay x \<Longrightarrow> R s (emit x s)"
    and stamp: "\<And>s r t. r < 8 \<Longrightarrow>
                 R s (s\<lparr>lastDebounceTime := (lastDebounceTime s)(r * 10 + 8 := t)\<rparr>)"
  shows "R s (scan_rows e row s)"
proof (induction "8 - row" arbitrary: row s)
  case 0
  then show ?case by (simp add: scan_rows_done R_refl)
next
  case (Suc n)
  then have row: "row < 8" and nxt: "n = 8 - (row + 1)" by simp_all
  let ?p = "Pin (rowPinMap ! row)"
  let ?a = "emit (DigitalWrite ?p LOW) (emit (PinMode ?p OUTPUT) s)"
  let ?b = "scan_cols e row 0 ?a"
  let ?c = "?b\<lparr>lastDebounceTime := (lastDebounceTime ?b)(row * 10 + 8 := millis_end e row)\<rparr>"
  let ?d = "emit (PinMode ?p INPUT_PULLUP) (emit (Delay 1) (emit (DigitalWrite ?p HIGH) ?c))"
  have a: "R s ?a" by (rule R_trans [OF out out]) simp_all
  have b: "R ?a ?b"
    by (rule scan_cols_rel [of R, OF R_refl R_trans cell down up row])
  have c: "R ?b ?c" by (rule stamp [OF row])
  have d: "R ?c ?d" by (rule R_trans [OF R_trans [OF out out] out]) simp_all
  have e: "R ?d (scan_rows e (row + 1) ?d)" by (rule Suc.hyps(1) [OF nxt])
  have "R s (scan_rows e (row + 1) ?d)"
    by (rule R_trans [OF R_trans [OF R_trans [OF R_trans [OF a b] c] d] e])
  then show ?case
    by (simp only: scan_rows_step [OF row])
qed

lemma loop_rel:
  fixes R :: "state \<Rightarrow> state \<Rightarrow> bool"
  assumes R_refl: "\<And>s. R s s"
    and R_trans: "\<And>a b c. R a b \<Longrightarrow> R b c \<Longrightarrow> R a c"
    and cell: "\<And>s k d. R s (s\<lparr>thisKey := k, isKeyDown := d\<rparr>)"
    and down: "\<And>s k. k < 80 \<Longrightarrow> (k mod 10 = 8 \<longrightarrow> k = 68) \<Longrightarrow>
                 R s (press k (s\<lparr>lastKeyState := (lastKeyState s)(k := True)\<rparr>))"
    and up: "\<And>s k. k < 80 \<Longrightarrow> (k mod 10 = 8 \<longrightarrow> k = 68) \<Longrightarrow>
                 R s (release k (s\<lparr>lastKeyState := (lastKeyState s)(k := False)\<rparr>))"
    and out: "\<And>s x. is_pin_or_delay x \<Longrightarrow> R s (emit x s)"
    and stamp: "\<And>s r t. r < 8 \<Longrightarrow>
                 R s (s\<lparr>lastDebounceTime := (lastDebounceTime s)(r * 10 + 8 := t)\<rparr>)"
  shows "R s (loop e s)"
proof -
  have "R s (s\<lparr>thisKey := 0, isKeyDown := False\<rparr>)" by (rule cell)
  moreover have "R (s\<lparr>thisKey := 0, isKeyDown := False\<rparr>) (loop e s)"
    unfolding loop_def
    by (rule scan_rows_rel [of R, OF R_refl R_trans cell down up out stamp])
  ultimately show ?thesis by (rule R_trans)
qed

subsection \<open>The target state machine\<close>

text \<open>
  C6. Pressing F1 (position 4) while Commodore is held: with Ctrl held the target
  becomes 1; otherwise with Shift held it goes down by one, from 1 to 4; with neither
  it goes up by one, from 4 to 1. The target stays in 1..4.
\<close>

theorem f1_cycles_target:
  assumes "cmdrPressed s" and "1 \<le> target s" and "target s \<le> 4"
  shows "target (press 4 s) =
          (if ctrlPressed s then 1
           else if lShifted s \<or> rShifted s then (if target s = 1 then 4 else target s - 1)
           else (if target s = 4 then 1 else target s + 1))
         \<and> 1 \<le> target (press 4 s) \<and> target (press 4 s) \<le> 4"
  using assms by (simp add: press_F1_target)

lemmas boot_defs = booted_def setup_sketch_def power_on_def rowPinMap_def colPinMap_def
  blinkLED_eq setKeymap_fields prim_defs

lemma booted_fields:
  "target (booted 4) = 4" "target (booted 1) = 1"
  "\<not> cmdrPressed (booted b)" "\<not> ctrlPressed (booted b)"
  "\<not> lShifted (booted b)" "\<not> rShifted (booted b)" "activeLED (booted b) = 17"
  by (simp_all add: boot_defs)

lemma press_modifier_fields:
  "target (press 75 s) = target s" "cmdrPressed (press 75 s)"
  "ctrlPressed (press 75 s) = ctrlPressed s" "lShifted (press 75 s) = lShifted s"
  "rShifted (press 75 s) = rShifted s" "activeLED (press 75 s) = activeLED s"
  "target (press 72 s) = target s" "cmdrPressed (press 72 s) = cmdrPressed s"
  "ctrlPressed (press 72 s)" "lShifted (press 72 s) = lShifted s"
  "rShifted (press 72 s) = rShifted s" "activeLED (press 72 s) = activeLED s"
  "target (press 17 s) = target s" "cmdrPressed (press 17 s) = cmdrPressed s"
  "ctrlPressed (press 17 s) = ctrlPressed s" "lShifted (press 17 s)"
  "rShifted (press 17 s) = rShifted s" "activeLED (press 17 s) = activeLED s"
  by (simp_all add: press_def prim_defs Let_def)

theorem f1_cycles_target_witness:
  "target (press 4 (press 75 (booted 4))) = 1
   \<and> target (press 4 (press 17 (press 75 (booted 1)))) = 4
   \<and> target (press 4 (press 72 (press 75 (booted 4)))) = 1"
  using f1_cycles_target [of "press 75 (booted 4)"]
        f1_cycles_target [of "press 17 (press 75 (booted 1))"]
        f1_cycles_target [of "press 72 (press 75 (booted 4))"]
  by (simp add: booted_fields press_modifier_fields)

lemma setKeymap_overrides:
  "keymap (setKeymap s) 50 =
     (if target s = ASCII then Lit CHR ''+'' else if target s = MISTER then Lit CHR ''=''
      else Lit CHR ''-'')"
  "keymap (setKeymap s) 53 =
     (if target s = ASCII \<or> target s = MISTER then Lit CHR ''-'' else Lit CHR ''='')"
  "keymap (setKeymap s) 60 =
     (if target s = ASCII \<or> target s = MISTER then Lit (CHR 0x5C)
      else if target s = VICE2_BMC64 then MacroValue KEY_INSERT else MacroValue KEY_END)"
  "keymap (setKeymap s) 72 =
     (if target s = ASCII \<or> target s = MISTER then MacroValue KEY_LEFT_CTRL
      else MacroValue KEY_TAB)"
  "keymap (setKeymap s) 75 =
     (if target s = ASCII \<or> target s = MISTER then MacroValue KEY_LEFT_ALT
      else MacroValue KEY_LEFT_CTRL)"
  "keymap (setKeymap s) 68 =
     (if target s = ASCII then MacroValue KEY_TAB
      else if target s = MISTER then MacroValue KEY_F11 else MacroValue KEY_PAGE_UP)"
  "keymap (setKeymap s) 66 =
     (if target s = ASCII then Lit CHR ''^''
      else if target s = VICE2_BMC64 then MacroValue KEY_DELETE
      else if target s = MISTER then MacroValue KEY_F9 else Lit (CHR 0x5C))"
  "keymap (setKeymap s) 65 =
     (if target s = ASCII then Lit CHR ''=''
      else if target s = VICE2_BMC64 then Lit (CHR 0x5C)
      else if target s = MISTER then MacroValue KEY_F10 else MacroValue KEY_PAGE_DOWN)"
  "keymap (setKeymap s) 56 = (if target s = ASCII then Lit CHR ''@'' else Lit CHR ''['')"
  "keymap (setKeymap s) 61 = (if target s = ASCII then Lit CHR ''*'' else Lit CHR '']'')"
  "keymap (setKeymap s) 55 = (if target s = ASCII then Lit CHR '':'' else Lit CHR '';'')"
  "keymap (setKeymap s) 62 = (if target s = ASCII then Lit CHR '';'' else Lit (CHR 0x27))"
  "keymap (setKeymap s) 23 = Lit CHR ''6''"
  "keymap (setKeymap s) 74 = Lit CHR '' ''"
  by (simp_all add: setKeymap_def Let_def fun_upd_def)

lemma below_8: "n < 8 \<Longrightarrow> n \<in> {0, 1, 2, 3, 4, 5, 6, 7::nat}"
  by auto

lemma setKeymap_pure:
  assumes "target s2 = target s" and "k < 80" and "k mod 10 < 8 \<or> k = 68"
  shows "keymap (setKeymap s2) k = keymap (setKeymap s) k"
proof (cases "k = 68")
  case True
  with assms(1) show ?thesis by (simp add: setKeymap_def Let_def fun_upd_def)
next
  case False
  with assms have "k div 10 < 8" and "k mod 10 < 8" by simp_all
  then have r: "k div 10 \<in> {0, 1, 2, 3, 4, 5, 6, 7}" and c: "k mod 10 \<in> {0, 1, 2, 3, 4, 5, 6, 7}"
    by (simp_all only: below_8)
  have "keymap (setKeymap s2) (c + r * 10) = keymap (setKeymap s) (c + r * 10)"
    if "r \<in> {0, 1, 2, 3, 4, 5, 6, 7}" and "c \<in> {0, 1, 2, 3, 4, 5, 6, 7}" for r c :: nat
    using that assms(1)
    by (elim insertE emptyE) (simp_all add: setKeymap_def Let_def fun_upd_def)
  from this [OF r c] show ?thesis by simp
qed

text \<open>
  C7. A target-cycling press stores the new target in EEPROM slot 0, then calls
  \<^verbatim>\<open>releaseAll\<close>, then rebuilds the keymap for the new target, then blinks the LED as
  many times as the new target's number, which is in 1..4; all of it inside the call
  of \<^verbatim>\<open>press\<close>. After it the keymap holds the new target's entries (listed for the
  positions that differ between targets, and for two that do not), and its entry at
  every scanned position is the one \<^verbatim>\<open>setKeymap\<close> builds for that target from any
  state.
\<close>

theorem target_change_sequence:
  assumes "cmdrPressed s" and "1 \<le> target s" and "target s \<le> 4"
  shows "1 \<le> target (press 4 s) \<and> target (press 4 s) \<le> 4
    \<and> press 4 s =
        exec [eeprom_write 0 (target (press 4 s)), emit KbReleaseAll, setKeymap,
              blinkLED (target (press 4 s))]
          (s\<lparr>calls := calls s @ [KeyDown 4], target := target (press 4 s)\<rparr>)
    \<and> emitted s (press 4 s) =
        [EepromWrite 0 (word_of_int (target (press 4 s))), KbReleaseAll]
        @ concat (replicate (nat (target (press 4 s))) (blink_pulse (activeLED s)))
    \<and> eeprom (press 4 s) 0 = word_of_int (target (press 4 s))
    \<and> keymap (press 4 s) = keymap (setKeymap (s\<lparr>target := target (press 4 s)\<rparr>))
    \<and> keymap (press 4 s) 50 =
        (if target (press 4 s) = ASCII then Lit CHR ''+'' else if target (press 4 s) = MISTER then Lit CHR ''='' else Lit CHR ''-'')
    \<and> keymap (press 4 s) 53 =
        (if target (press 4 s) = ASCII \<or> target (press 4 s) = MISTER then Lit CHR ''-'' else Lit CHR ''='')
    \<and> keymap (press 4 s) 55 =
        (if target (press 4 s) = ASCII then Lit CHR '':'' else Lit CHR '';'')
    \<and> keymap (press 4 s) 56 =
        (if target (press 4 s) = ASCII then Lit CHR ''@'' else Lit CHR ''['')
    \<and> keymap (press 4 s) 60 =
        (if target (press 4 s) = ASCII \<or> target (press 4 s) = MISTER then Lit (CHR 0x5C)
          else if target (press 4 s) = VICE2_BMC64 then MacroValue KEY_INSERT else MacroValue KEY_END)
    \<and> keymap (press 4 s) 61 =
        (if target (press 4 s) = ASCII then Lit CHR ''*'' else Lit CHR '']'')
    \<and> keymap (press 4 s) 62 =
        (if target (press 4 s) = ASCII then Lit CHR '';'' else Lit (CHR 0x27))
    \<and> keymap (press 4 s) 65 =
        (if target (press 4 s) = ASCII then Lit CHR ''=''
          else if target (press 4 s) = VICE2_BMC64 then Lit (CHR 0x5C)
          else if target (press 4 s) = MISTER then MacroValue KEY_F10 else MacroValue KEY_PAGE_DOWN)
    \<and> keymap (press 4 s) 66 =
        (if target (press 4 s) = ASCII then Lit CHR ''^''
          else if target (press 4 s) = VICE2_BMC64 then MacroValue KEY_DELETE
          else if target (press 4 s) = MISTER then MacroValue KEY_F9 else Lit (CHR 0x5C))
    \<and> keymap (press 4 s) 68 =
        (if target (press 4 s) = ASCII then MacroValue KEY_TAB
          else if target (press 4 s) = MISTER then MacroValue KEY_F11 else MacroValue KEY_PAGE_UP)
    \<and> keymap (press 4 s) 72 =
        (if target (press 4 s) = ASCII \<or> target (press 4 s) = MISTER then MacroValue KEY_LEFT_CTRL else MacroValue KEY_TAB)
    \<and> keymap (press 4 s) 75 =
        (if target (press 4 s) = ASCII \<or> target (press 4 s) = MISTER then MacroValue KEY_LEFT_ALT
          else MacroValue KEY_LEFT_CTRL)
    \<and> keymap (press 4 s) 23 =
        Lit CHR ''6''
    \<and> keymap (press 4 s) 74 =
        Lit CHR '' ''
    \<and> (k < 80 \<and> (k mod 10 < 8 \<or> k = 68) \<and> target s2 = target (press 4 s) \<longrightarrow>
          keymap (press 4 s) k = keymap (setKeymap s2) k)"
proof -
  let ?t = "target (press 4 s)"
  let ?s = "s\<lparr>target := ?t\<rparr>"
  have range: "1 \<le> ?t" "?t \<le> 4"
    using assms by (simp_all add: press_F1_target)
  have seq: "press 4 s =
        exec [eeprom_write 0 ?t, emit KbReleaseAll, setKeymap, blinkLED ?t]
          (s\<lparr>calls := calls s @ [KeyDown 4], target := ?t\<rparr>)"
    using assms(1) by (rule press_F1_cmdr)
  have "log (press 4 s) =
        log s @ [EepromWrite 0 (word_of_int ?t), KbReleaseAll]
        @ concat (replicate (nat ?t) (blink_pulse (activeLED s)))"
    by (subst seq) (simp add: blinkLED_eq setKeymap_fields prim_defs)
  then have em: "emitted s (press 4 s) =
        [EepromWrite 0 (word_of_int ?t), KbReleaseAll]
        @ concat (replicate (nat ?t) (blink_pulse (activeLED s)))"
    by (rule emitted_append)
  have ee: "eeprom (press 4 s) 0 = word_of_int ?t"
    by (subst seq) (simp add: blinkLED_eq setKeymap_fields prim_defs)
  have km: "keymap (press 4 s) = keymap (setKeymap ?s)"
    by (subst seq) (simp add: blinkLED_eq prim_defs, simp add: setKeymap_def Let_def)
  have t: "target ?s = ?t" by simp
  have entries:
    "keymap (press 4 s) 50 =
        (if target (press 4 s) = ASCII then Lit CHR ''+'' else if target (press 4 s) = MISTER then Lit CHR ''='' else Lit CHR ''-'')"
    "keymap (press 4 s) 53 =
        (if target (press 4 s) = ASCII \<or> target (press 4 s) = MISTER then Lit CHR ''-'' else Lit CHR ''='')"
    "keymap (press 4 s) 55 =
        (if target (press 4 s) = ASCII then Lit CHR '':'' else Lit CHR '';'')"
    "keymap (press 4 s) 56 =
        (if target (press 4 s) = ASCII then Lit CHR ''@'' else Lit CHR ''['')"
    "keymap (press 4 s) 60 =
        (if target (press 4 s) = ASCII \<or> target (press 4 s) = MISTER then Lit (CHR 0x5C)
          else if target (press 4 s) = VICE2_BMC64 then MacroValue KEY_INSERT else MacroValue KEY_END)"
    "keymap (press 4 s) 61 =
        (if target (press 4 s) = ASCII then Lit CHR ''*'' else Lit CHR '']'')"
    "keymap (press 4 s) 62 =
        (if target (press 4 s) = ASCII then Lit CHR '';'' else Lit (CHR 0x27))"
    "keymap (press 4 s) 65 =
        (if target (press 4 s) = ASCII then Lit CHR ''=''
          else if target (press 4 s) = VICE2_BMC64 then Lit (CHR 0x5C)
          else if target (press 4 s) = MISTER then MacroValue KEY_F10 else MacroValue KEY_PAGE_DOWN)"
    "keymap (press 4 s) 66 =
        (if target (press 4 s) = ASCII then Lit CHR ''^''
          else if target (press 4 s) = VICE2_BMC64 then MacroValue KEY_DELETE
          else if target (press 4 s) = MISTER then MacroValue KEY_F9 else Lit (CHR 0x5C))"
    "keymap (press 4 s) 68 =
        (if target (press 4 s) = ASCII then MacroValue KEY_TAB
          else if target (press 4 s) = MISTER then MacroValue KEY_F11 else MacroValue KEY_PAGE_UP)"
    "keymap (press 4 s) 72 =
        (if target (press 4 s) = ASCII \<or> target (press 4 s) = MISTER then MacroValue KEY_LEFT_CTRL else MacroValue KEY_TAB)"
    "keymap (press 4 s) 75 =
        (if target (press 4 s) = ASCII \<or> target (press 4 s) = MISTER then MacroValue KEY_LEFT_ALT
          else MacroValue KEY_LEFT_CTRL)"
    "keymap (press 4 s) 23 =
        Lit CHR ''6''"
    "keymap (press 4 s) 74 =
        Lit CHR '' ''"
    unfolding km by (simp_all only: setKeymap_overrides t)
  have pure: "keymap (press 4 s) k = keymap (setKeymap s2) k"
    if "k < 80 \<and> (k mod 10 < 8 \<or> k = 68) \<and> target s2 = ?t"
    unfolding km by (rule setKeymap_pure [symmetric]) (use that in \<open>simp_all only: t\<close>)
  show ?thesis
    by (intro conjI impI)
       (fact range, fact range, fact seq, fact em, fact ee, fact km, (fact entries)+,
        rule pure, assumption)
qed


theorem target_change_sequence_witness:
  "emitted (press 75 (booted 1)) (press 4 (press 75 (booted 1))) =
     [EepromWrite 0 2, KbReleaseAll,
      PinMode (Pin 17) OUTPUT, DigitalWrite (Pin 17) LOW, Delay 75,
      PinMode (Pin 17) INPUT, Delay 75,
      PinMode (Pin 17) OUTPUT, DigitalWrite (Pin 17) LOW, Delay 75,
      PinMode (Pin 17) INPUT, Delay 75]
   \<and> eeprom (press 4 (press 75 (booted 1))) 0 = 2
   \<and> keymap (press 4 (press 75 (booted 1))) 60 = MacroValue KEY_INSERT
   \<and> keymap (press 4 (press 75 (booted 1))) 65 = Lit (CHR 0x5C)
   \<and> keymap (press 4 (press 75 (booted 1))) 75 = MacroValue KEY_LEFT_CTRL
   \<and> keymap (press 4 (press 75 (booted 1))) 12 = Lit CHR ''a''"
proof -
  let ?s = "press 75 (booted 1)"
  let ?s2 = "(power_on (\<lambda>_. 0))\<lparr>target := 2\<rparr>"
  have t: "target (press 4 ?s) = 2"
    by (simp add: press_F1_target booted_fields press_modifier_fields)
  have "cmdrPressed ?s" and "1 \<le> target ?s" and "target ?s \<le> 4"
    by (simp_all add: booted_fields press_modifier_fields)
  note r = target_change_sequence [OF this, of 12 ?s2]
  have em: "emitted ?s (press 4 ?s) =
        [EepromWrite 0 (word_of_int (target (press 4 ?s))), KbReleaseAll]
        @ concat (replicate (nat (target (press 4 ?s))) (blink_pulse (activeLED ?s)))"
    using r by (elim conjE)
  have ee: "eeprom (press 4 ?s) 0 = word_of_int (target (press 4 ?s))"
    using r by (elim conjE)
  have k60: "keymap (press 4 ?s) 60 =
        (if target (press 4 ?s) = ASCII \<or> target (press 4 ?s) = MISTER then Lit (CHR 0x5C)
          else if target (press 4 ?s) = VICE2_BMC64 then MacroValue KEY_INSERT
          else MacroValue KEY_END)"
    using r by (elim conjE)
  have k65: "keymap (press 4 ?s) 65 =
        (if target (press 4 ?s) = ASCII then Lit CHR ''=''
          else if target (press 4 ?s) = VICE2_BMC64 then Lit (CHR 0x5C)
          else if target (press 4 ?s) = MISTER then MacroValue KEY_F10
          else MacroValue KEY_PAGE_DOWN)"
    using r by (elim conjE)
  have k75: "keymap (press 4 ?s) 75 =
        (if target (press 4 ?s) = ASCII \<or> target (press 4 ?s) = MISTER
         then MacroValue KEY_LEFT_ALT else MacroValue KEY_LEFT_CTRL)"
    using r by (elim conjE)
  have pure: "12 < (80::nat) \<and> ((12::nat) mod 10 < 8 \<or> (12::nat) = 68)
          \<and> target ?s2 = target (press 4 ?s) \<longrightarrow>
          keymap (press 4 ?s) 12 = keymap (setKeymap ?s2) 12"
    using r by (elim conjE)
  have a: "keymap (setKeymap ?s2) 12 = Lit CHR ''a''"
    by (simp add: setKeymap_def Let_def fun_upd_def)
  have k12: "keymap (press 4 ?s) 12 = Lit CHR ''a''"
    using pure by (simp add: t a)
  show ?thesis
    using em ee k60 k65 k75 k12
    by (simp add: t booted_fields press_modifier_fields blink_pulse_def numeral_2_eq_2)
qed

subsection \<open>The debounce timestamps\<close>

lemma scan_cols_lastDebounceTime:
  "row < 8 \<Longrightarrow> lastDebounceTime (scan_cols e row col s) = lastDebounceTime s"
  by (rule scan_cols_rel [where R = "\<lambda>s s'. lastDebounceTime s' = lastDebounceTime s"])
     (simp_all add: press_frame release_frame)

lemma scan_rows_lastDebounceTime:
  "lastDebounceTime (scan_rows e row s) p =
     (if p mod 10 = 8 \<and> row \<le> p div 10 \<and> p div 10 < 8
      then millis_end e (p div 10) else lastDebounceTime s p)"
proof (induction "8 - row" arbitrary: row s)
  case 0
  then show ?case by (auto simp add: scan_rows_done)
next
  case (Suc n)
  then have row: "row < 8" and nxt: "n = 8 - (row + 1)" by simp_all
  have pos: "p = row * 10 + 8 \<longleftrightarrow> p mod 10 = 8 \<and> p div 10 = row"
    by presburger
  show ?case
    by (simp only: scan_rows_step [OF row] Suc.hyps(1) [OF nxt])
       (use row pos in \<open>auto simp add: emit_def scan_cols_lastDebounceTime\<close>)
qed

lemma loop_lastDebounceTime:
  "lastDebounceTime (loop e s) p =
     (if p mod 10 = 8 \<and> p div 10 < 8 then millis_end e (p div 10) else lastDebounceTime s p)"
  by (simp add: loop_def scan_rows_lastDebounceTime)

lemma loops_lastDebounceTime:
  "p mod 10 < 8 \<Longrightarrow> lastDebounceTime (loops es s) p = lastDebounceTime s p"
  by (induction es arbitrary: s) (simp_all add: loop_lastDebounceTime)

lemma setup_lastDebounceTime:
  "lastDebounceTime (setup_sketch led (power_on ee)) p = 0"
  by (simp add: setup_sketch_def power_on_def rowPinMap_def colPinMap_def blinkLED_eq
        setKeymap_fields prim_defs)

text \<open>
  C10. When the column loop of a row is left, \<open>thisKey\<close> is \<open>row * 10 + 8\<close>; the
  assignment after the column loop therefore stamps that position, and
  \<open>lastDebounceTime\<close> of a position in a column below 8 is never written: one pass of
  \<^verbatim>\<open>loop\<close> leaves it as it was, and after \<^verbatim>\<open>setup\<close> and any number of passes it still has
  its initial value 0.
\<close>

theorem debounce_stamp_only_column_8:
  "(row < 8 \<longrightarrow> thisKey (scan_cols e row 0 s) = row * 10 + 8
              \<and> lastDebounceTime (loop e s) (row * 10 + 8) = millis_end e row)
   \<and> (p mod 10 < 8 \<longrightarrow>
        lastDebounceTime (loop e s) p = lastDebounceTime s p
        \<and> lastDebounceTime (loops es (setup_sketch led (power_on ee))) p = 0)"
  by (simp add: scan_cols_thisKey loop_lastDebounceTime loops_lastDebounceTime
        setup_lastDebounceTime)

theorem debounce_stamp_only_column_8_witness:
  "lastDebounceTime (loop return_down (booted 1)) 8 = 2000
   \<and> lastDebounceTime (loop return_down (booted 1)) 1 = 0
   \<and> lastDebounceTime (loops [return_down, return_down] (booted 1)) 1 = 0"
  using debounce_stamp_only_column_8 [of 0 return_down "booted 1" 1 "[return_down, return_down]" HIGH "\<lambda>_. 1"]
  by (simp add: setup_lastDebounceTime booted_def return_down_def)

subsection \<open>Start-up\<close>

lemma press_F1_eeprom:
  assumes "cmdrPressed s"
  shows "eeprom (press 4 s) = (eeprom s)(0 := word_of_int (target (press 4 s)))"
  by (subst press_F1_cmdr [OF assms]) (simp add: blinkLED_eq setKeymap_fields prim_defs)

lemma uint_byte_target:
  "1 \<le> t \<Longrightarrow> t \<le> 4 \<Longrightarrow> uint (word_of_int t :: 8 word) = t"
  by (simp add: uint_word_of_int)

text \<open>
  C9. \<^verbatim>\<open>setup\<close> takes the target from EEPROM slot 0. A byte outside 1..4 makes the
  target 1, and 1 is written to slot 0 at once (the next effect is the start-up delay);
  a byte in 1..4 is the target, and nothing is written. So the target stored by a
  target change is the target after the next power-up.
\<close>

theorem setup_loads_target:
  "target (setup_sketch led (power_on ee)) =
     (if 1 \<le> uint (ee 0) \<and> uint (ee 0) \<le> 4 then uint (ee 0) else 1)
   \<and> eeprom (setup_sketch led (power_on ee)) =
     (if 1 \<le> uint (ee 0) \<and> uint (ee 0) \<le> 4 then ee else ee(0 := 1))
   \<and> dropWhile (\<lambda>x. \<not> is_eeprom_write x) (log (setup_sketch led (power_on ee))) =
     (if 1 \<le> uint (ee 0) \<and> uint (ee 0) \<le> 4 then []
      else [EepromWrite 0 1, Delay LED_START_DELAY]
           @ blink_pulse (if led = LOW then 0 else 17))
   \<and> (1 \<le> target s \<and> target s \<le> 4 \<longrightarrow>
        target (setup_sketch led' (power_on (eeprom (eeprom_write 0 (target s) s)))) = target s)"
proof -
  let ?ok = "1 \<le> uint (ee 0) \<and> uint (ee 0) \<le> 4"
  have t: "target (setup_sketch led (power_on ee)) =
      (if 1 \<le> uint (ee 0) \<and> uint (ee 0) \<le> 4 then uint (ee 0) else 1)" for led ee
    by (auto simp add: setup_sketch_def power_on_def rowPinMap_def colPinMap_def blinkLED_eq
        setKeymap_fields prim_defs)
  have e: "eeprom (setup_sketch led (power_on ee)) = (if ?ok then ee else ee(0 := 1))"
    by (auto simp add: setup_sketch_def power_on_def rowPinMap_def colPinMap_def blinkLED_eq
        setKeymap_fields prim_defs)
  have l: "dropWhile (\<lambda>x. \<not> is_eeprom_write x) (log (setup_sketch led (power_on ee))) =
     (if ?ok then []
      else [EepromWrite 0 1, Delay LED_START_DELAY] @ blink_pulse (if led = LOW then 0 else 17))"
    by (cases led)
       (auto simp add: setup_sketch_def power_on_def rowPinMap_def colPinMap_def blinkLED_eq
        setKeymap_fields prim_defs blink_pulse_def)
  have r: "target (setup_sketch led' (power_on (eeprom (eeprom_write 0 (target s) s)))) = target s"
    if "1 \<le> target s" "target s \<le> 4"
    using that by (simp add: t) (simp add: eeprom_write_def emit_def uint_byte_target)
  from t e l r show ?thesis by blast
qed

theorem setup_loads_target_witness:
  "target (setup_sketch HIGH (power_on (\<lambda>_. 9))) = 1
   \<and> eeprom (setup_sketch HIGH (power_on (\<lambda>_. 9))) 0 = 1
   \<and> target (setup_sketch HIGH (power_on (\<lambda>_. 3))) = 3
   \<and> target (setup_sketch LOW (power_on (eeprom (press 4 (press 75 (booted 1)))))) = 2"
proof -
  have t: "target (press 4 (press 75 (booted 1))) = 2"
    by (simp add: press_F1_target booted_fields press_modifier_fields)
  have e: "eeprom (press 4 (press 75 (booted 1))) 0 = 2"
    by (simp add: press_F1_eeprom press_modifier_fields t)
  show ?thesis
    using setup_loads_target [of HIGH "\<lambda>_. 9"] setup_loads_target [of HIGH "\<lambda>_. 3"]
      setup_loads_target [of LOW "eeprom (press 4 (press 75 (booted 1)))"]
    by (simp add: e)
qed

subsection \<open>The menu key\<close>

lemma emitted_self: "emitted s s = []"
  by (simp add: emitted_def)

text \<open>
  C4. With Commodore held, pressing F7 (position 3) emits Alt-up, a delay of 25 ms,
  F12-down, a delay of 25 ms and Alt-down on MISTER, and Alt-up and Left-Windows-down on
  ASCII, and sets \<open>enterMenu\<close>. With \<open>enterMenu\<close> set, the release of position 3
  emits F12-up on MISTER; on ASCII it emits Windows-up and then also F7-up. In both
  cases the shift keys that are held are pressed again after that.
\<close>

theorem f7_menu_sequence:
  "(cmdrPressed s \<and> target s = MISTER \<longrightarrow>
      emitted s (press 3 s) =
        [KbRelease (Named KEY_LEFT_ALT), Delay 25, KbPress (Named KEY_F12), Delay 25,
         KbPress (Named KEY_LEFT_ALT)]
      \<and> enterMenu (press 3 s))
   \<and> (cmdrPressed s \<and> target s = ASCII \<longrightarrow>
      emitted s (press 3 s) =
        [KbRelease (Named KEY_LEFT_ALT), KbPress (Named KEY_LEFT_WINDOWS)]
      \<and> enterMenu (press 3 s))
   \<and> (enterMenu s \<and> target s = MISTER \<longrightarrow>
      emitted s (release 3 s) = [KbRelease (Named KEY_F12)] @ shift_restore s
      \<and> \<not> enterMenu (release 3 s))
   \<and> (enterMenu s \<and> target s = ASCII \<longrightarrow>
      emitted s (release 3 s) =
        [KbRelease (Named KEY_LEFT_WINDOWS), KbRelease (Named KEY_F7)] @ shift_restore s
      \<and> \<not> enterMenu (release 3 s))"
  by (simp add: press_def release_def release_switch_def emitted_def shift_restore_def
        prim_defs Let_def)

theorem f7_menu_sequence_witness:
  "emitted (press 75 (booted 1)) (press 3 (press 75 (booted 1))) =
     [KbRelease (Named KEY_LEFT_ALT), KbPress (Named KEY_LEFT_WINDOWS)]
   \<and> emitted (press 3 (press 75 (booted 1))) (release 3 (press 3 (press 75 (booted 1)))) =
     [KbRelease (Named KEY_LEFT_WINDOWS), KbRelease (Named KEY_F7)]
   \<and> emitted (press 75 (booted 4)) (press 3 (press 75 (booted 4))) =
     [KbRelease (Named KEY_LEFT_ALT), Delay 25, KbPress (Named KEY_F12), Delay 25,
      KbPress (Named KEY_LEFT_ALT)]
   \<and> emitted (press 3 (press 75 (booted 4))) (release 3 (press 3 (press 75 (booted 4)))) =
     [KbRelease (Named KEY_F12)]"
proof -
  have a: "cmdrPressed (press 75 (booted b))" "target (press 75 (booted 1)) = 1"
    "target (press 75 (booted 4)) = 4" for b
    by (simp_all add: press_modifier_fields booted_fields)
  have p: "target (press 3 s) = target s" "lShifted (press 3 s) = lShifted s"
    "rShifted (press 3 s) = rShifted s" for s
    by (simp_all add: press_def prim_defs Let_def)
  have b: "shift_restore (press 3 (press 75 (booted b))) = []" for b
    by (simp add: shift_restore_def p press_modifier_fields booted_fields)
  show ?thesis
    using f7_menu_sequence [of "press 75 (booted 1)"] f7_menu_sequence [of "press 75 (booted 4)"]
      f7_menu_sequence [of "press 3 (press 75 (booted 1))"]
      f7_menu_sequence [of "press 3 (press 75 (booted 4))"]
    by (simp add: a b p)
qed

subsection \<open>Shift restoration\<close>

lemma sink_down_append: "sink_down (l @ l') = foldl sink_step (sink_down l) l'"
  by (simp add: sink_down_def)

lemma release_switch_shift_inv: "shift_inv s \<Longrightarrow> shift_inv (release_switch key s)"
  by (simp add: release_switch_def shift_inv_def sink_down_append prim_defs Let_def)

lemma release_log:
  "log (release key s) =
     log (release_switch key (s\<lparr>calls := calls s @ [KeyUp key]\<rparr>)) @ shift_restore (release key s)"
  by (simp add: release_def shift_restore_def prim_defs Let_def)

lemma release_switch_log_prefix:
  "\<exists>l. log (release_switch key s) = log s @ l"
  by (simp add: release_switch_def prim_defs Let_def)

lemma release_shift_flags:
  "lShifted (release key s) = lShifted (release_switch key (s\<lparr>calls := calls s @ [KeyUp key]\<rparr>))"
  "rShifted (release key s) = rShifted (release_switch key (s\<lparr>calls := calls s @ [KeyUp key]\<rparr>))"
  by (simp_all add: release_def prim_defs Let_def)

lemma sink_down_shift_restore:
  "shift_inv t \<Longrightarrow> lShifted t' = lShifted t \<Longrightarrow> rShifted t' = rShifted t \<Longrightarrow>
   (Named KEY_LEFT_SHIFT \<in> sink_down (log t @ shift_restore t')) = lShifted t
   \<and> (Named KEY_RIGHT_SHIFT \<in> sink_down (log t @ shift_restore t')) = rShifted t"
  by (auto simp add: shift_inv_def shift_restore_def sink_down_def)

lemma release_sink_shift:
  assumes "shift_inv s"
  shows "(Named KEY_LEFT_SHIFT \<in> sink_down (log (release key s))) = lShifted (release key s)"
    and "(Named KEY_RIGHT_SHIFT \<in> sink_down (log (release key s))) = rShifted (release key s)"
proof -
  let ?t = "release_switch key (s\<lparr>calls := calls s @ [KeyUp key]\<rparr>)"
  have "shift_inv (s\<lparr>calls := calls s @ [KeyUp key]\<rparr>)"
    using assms by (simp add: shift_inv_def)
  then have inv: "shift_inv ?t" by (rule release_switch_shift_inv)
  have l: "log (release key s) = log ?t @ shift_restore (release key s)"
    by (rule release_log)
  from sink_down_shift_restore [OF inv release_shift_flags]
  show "(Named KEY_LEFT_SHIFT \<in> sink_down (log (release key s))) = lShifted (release key s)"
    and "(Named KEY_RIGHT_SHIFT \<in> sink_down (log (release key s))) = rShifted (release key s)"
    by (simp_all add: l release_shift_flags)
qed

lemma sink_blink_pulses:
  "foldl sink_step K (concat (replicate n (blink_pulse led))) = K"
  by (cases "led = 0"; induction n; simp add: blink_pulse_def)

lemma press_shift_inv: "shift_inv s \<Longrightarrow> shift_inv (press key s)"
  by (simp add: press_def shift_inv_def sink_down_append sink_blink_pulses blinkLED_eq
        setKeymap_fields prim_defs Let_def)

lemma release_shift_inv: "shift_inv s \<Longrightarrow> shift_inv (release key s)"
  using release_sink_shift [of s key] by (simp add: shift_inv_def)

text \<open>
  C3. Every release ends by pressing the left shift key if \<open>lShifted\<close> and the right
  shift key if \<open>rShifted\<close>, as the flags are after the \<^verbatim>\<open>switch\<close>. So after a release
  the left shift key is down in the sink exactly if \<open>lShifted\<close>, and the right one
  exactly if \<open>rShifted\<close>, whatever a press released before.
\<close>

theorem release_restores_shift:
  assumes "shift_inv s"
  shows "log (release key s) =
           log (release_switch key (s\<lparr>calls := calls s @ [KeyUp key]\<rparr>))
           @ (if lShifted (release key s) then [KbPress (Named KEY_LEFT_SHIFT)] else [])
           @ (if rShifted (release key s) then [KbPress (Named KEY_RIGHT_SHIFT)] else [])
    \<and> (Named KEY_LEFT_SHIFT \<in> sink_down (log (release key s))) = lShifted (release key s)
    \<and> (Named KEY_RIGHT_SHIFT \<in> sink_down (log (release key s))) = rShifted (release key s)"
  using release_log [of key s] release_sink_shift [OF assms, of key]
  by (simp add: shift_restore_def)

lemma emit_shift_inv: "is_pin_or_delay x \<Longrightarrow> shift_inv s \<Longrightarrow> shift_inv (emit x s)"
  by (cases x) (simp_all add: shift_inv_def emit_def sink_down_append)

lemma loop_shift_inv: "shift_inv s \<Longrightarrow> shift_inv (loop e s)"
proof -
  have "shift_inv s \<longrightarrow> shift_inv (loop e s)"
  proof (rule loop_rel [where R = "\<lambda>s s'. shift_inv s \<longrightarrow> shift_inv s'"])
    show "shift_inv s \<longrightarrow> shift_inv (s\<lparr>thisKey := k, isKeyDown := d\<rparr>)" for s k d
      by (simp add: shift_inv_def)
    show "shift_inv s \<longrightarrow>
        shift_inv (press k (s\<lparr>lastKeyState := (lastKeyState s)(k := True)\<rparr>))" for s k
      using press_shift_inv [of "s\<lparr>lastKeyState := (lastKeyState s)(k := True)\<rparr>" k]
      by (simp add: shift_inv_def)
    show "shift_inv s \<longrightarrow>
        shift_inv (release k (s\<lparr>lastKeyState := (lastKeyState s)(k := False)\<rparr>))" for s k
      using release_shift_inv [of "s\<lparr>lastKeyState := (lastKeyState s)(k := False)\<rparr>" k]
      by (simp add: shift_inv_def)
    show "shift_inv s \<longrightarrow> shift_inv (emit x s)" if "is_pin_or_delay x" for s x
      using that by (simp add: emit_shift_inv)
    show "shift_inv s \<longrightarrow>
        shift_inv (s\<lparr>lastDebounceTime := (lastDebounceTime s)(r * 10 + 8 := t)\<rparr>)" for s r t
      by (simp add: shift_inv_def)
  qed simp_all
  then show "shift_inv s \<Longrightarrow> shift_inv (loop e s)" by simp
qed

lemma setup_shift_inv: "shift_inv (setup_sketch led (power_on ee))"
  by (cases led)
     (simp_all add: shift_inv_def sink_down_def setup_sketch_def power_on_def rowPinMap_def
        colPinMap_def blinkLED_eq setKeymap_fields prim_defs sink_blink_pulses)

lemma loops_shift_inv: "shift_inv s \<Longrightarrow> shift_inv (loops es s)"
  by (induction es arbitrary: s) (simp_all add: loop_shift_inv)

lemma press_zero_log:
  "log (press 43 s) =
     log s @ (if lShifted s then [KbRelease (Named KEY_LEFT_SHIFT)] else [])
           @ (if rShifted s then [KbRelease (Named KEY_RIGHT_SHIFT)] else [])
           @ [KbPress (Data (keymap s 43))]"
  "lShifted (press 43 s) = lShifted s" "rShifted (press 43 s) = rShifted s"
  by (simp_all add: press_def prim_defs Let_def)

lemma release_default_flags:
  "lShifted (release 43 s) = lShifted s" "rShifted (release 43 s) = rShifted s"
  by (simp_all add: release_def release_switch_def prim_defs Let_def)

theorem release_restores_shift_witness:
  "lShifted (press 43 (press 17 (booted 1)))
   \<and> Named KEY_LEFT_SHIFT \<notin> sink_down (log (press 43 (press 17 (booted 1))))
   \<and> Named KEY_LEFT_SHIFT \<in> sink_down (log (release 43 (press 43 (press 17 (booted 1)))))
   \<and> Named KEY_RIGHT_SHIFT \<notin> sink_down (log (release 43 (press 43 (press 17 (booted 1)))))"
proof -
  have inv: "shift_inv (press 43 (press 17 (booted 1)))"
    unfolding booted_def by (intro press_shift_inv setup_shift_inv)
  show ?thesis
    using release_restores_shift [OF inv, of 43, THEN conjunct2]
    by (simp add: press_zero_log release_default_flags press_modifier_fields booted_fields
          sink_down_append)
qed

subsection \<open>Writes to the EEPROM\<close>

lemma eeprom_writes_blink:
  "eeprom_writes (concat (replicate n (blink_pulse led))) = []"
  by (cases "led = 0"; induction n; simp add: blink_pulse_def eeprom_writes_def)

lemma eeprom_writes_append: "eeprom_writes (l @ l') = eeprom_writes l @ eeprom_writes l'"
  by (simp add: eeprom_writes_def)

lemma eeprom_writes_simps:
  "eeprom_writes [] = []"
  "eeprom_writes (x # l) = (if is_eeprom_write x then x # eeprom_writes l else eeprom_writes l)"
  by (simp_all add: eeprom_writes_def)

lemma press_log_ex: "\<exists>l. log (press key s) = log s @ l"
  by (simp add: press_def blinkLED_eq setKeymap_fields prim_defs Let_def)

lemma release_log_ex: "\<exists>l. log (release key s) = log s @ l"
  using release_switch_log_prefix [of key "s\<lparr>calls := calls s @ [KeyUp key]\<rparr>"]
  by (auto simp add: release_log)

lemma press_log_prefix: "log (press key s) = log s @ emitted s (press key s)"
  using press_log_ex [of key s] by (auto simp add: emitted_def)

lemma release_log_prefix: "log (release key s) = log s @ emitted s (release key s)"
  using release_log_ex [of key s] by (auto simp add: emitted_def)

lemma press_calls: "calls (press key s) = calls s @ [KeyDown key]"
  by (simp add: press_def blinkLED_eq setKeymap_fields prim_defs Let_def)

lemma release_calls: "calls (release key s) = calls s @ [KeyUp key]"
  by (simp add: release_def release_switch_def prim_defs Let_def)

lemma press_eeprom_writes_ex:
  "key \<noteq> 4 \<or> \<not> cmdrPressed s \<Longrightarrow>
   \<exists>l. log (press key s) = log s @ l \<and> eeprom_writes l = []"
  by (cases "key = 4") (simp_all add: press_def prim_defs Let_def eeprom_writes_def)

lemma press_eeprom_writes_other:
  assumes "key \<noteq> 4 \<or> \<not> cmdrPressed s"
  shows "eeprom_writes (emitted s (press key s)) = []"
  using press_eeprom_writes_ex [OF assms] by (auto simp add: emitted_def)

lemma press_eeprom_writes_F1:
  assumes "cmdrPressed s"
  shows "eeprom_writes (emitted s (press 4 s)) =
           [EepromWrite 0 (word_of_int (target (press 4 s)))]"
proof -
  have "log (press 4 s) =
        log s @ [EepromWrite 0 (word_of_int (target (press 4 s))), KbReleaseAll]
        @ concat (replicate (nat (target (press 4 s))) (blink_pulse (activeLED s)))"
    by (subst press_F1_cmdr [OF assms]) (simp add: blinkLED_eq setKeymap_fields prim_defs)
  then show ?thesis
    by (simp add: emitted_def eeprom_writes_simps eeprom_writes_append eeprom_writes_blink)
qed

lemma press_eeprom_writes:
  "eeprom_writes (emitted s (press key s)) =
     (if key = 4 \<and> cmdrPressed s
      then [EepromWrite 0 (word_of_int (target (press key s)))] else [])"
  using press_eeprom_writes_other [of key s] press_eeprom_writes_F1 [of s] by auto

lemma eeprom_writes_shift_restore: "eeprom_writes (shift_restore t) = []"
  by (simp add: shift_restore_def eeprom_writes_def)

lemma release_switch_eeprom_writes:
  "\<exists>l. log (release_switch key s) = log s @ l \<and> eeprom_writes l = []"
  by (simp add: release_switch_def prim_defs Let_def eeprom_writes_def)

lemma release_eeprom_writes: "eeprom_writes (emitted s (release key s)) = []"
proof -
  let ?s = "s\<lparr>calls := calls s @ [KeyUp key]\<rparr>"
  obtain l where l: "log (release_switch key ?s) = log s @ l" and e: "eeprom_writes l = []"
    using release_switch_eeprom_writes [of key ?s] by auto
  have "log (release key s) = log s @ (l @ shift_restore (release key s))"
    by (simp only: release_log l append_assoc)
  then have "emitted s (release key s) = l @ shift_restore (release key s)"
    by (rule emitted_append)
  then show ?thesis
    by (simp only: eeprom_writes_append e eeprom_writes_shift_restore append_Nil)
qed

lemma press_eeprom: "key \<noteq> 4 \<or> \<not> cmdrPressed s \<Longrightarrow> eeprom (press key s) = eeprom s"
  by (cases "key = 4") (simp_all add: press_def prim_defs Let_def)

lemma release_eeprom: "eeprom (release key s) = eeprom s"
  by (simp add: release_def release_switch_def prim_defs Let_def)

lemma no_store_without_F1_trans:
  "no_store_without_F1 a b \<Longrightarrow> no_store_without_F1 b c \<Longrightarrow> no_store_without_F1 a c"
  unfolding no_store_without_F1_def
  by (elim exE conjE) (auto simp add: eeprom_writes_append)

lemma loop_no_store_without_F1: "no_store_without_F1 s (loop e s)"
proof (rule loop_rel [where R = no_store_without_F1])
  show "no_store_without_F1 s s" for s
    by (simp add: no_store_without_F1_def eeprom_writes_simps)
  show "no_store_without_F1 a b \<Longrightarrow> no_store_without_F1 b c \<Longrightarrow> no_store_without_F1 a c"
    for a b c by (rule no_store_without_F1_trans)
  show "no_store_without_F1 s (s\<lparr>thisKey := k, isKeyDown := d\<rparr>)" for s k d
    by (simp add: no_store_without_F1_def eeprom_writes_simps)
  show "no_store_without_F1 s (press k (s\<lparr>lastKeyState := (lastKeyState s)(k := True)\<rparr>))"
    for s k
    unfolding no_store_without_F1_def
    using press_log_prefix [of k "s\<lparr>lastKeyState := (lastKeyState s)(k := True)\<rparr>"]
      press_eeprom_writes [of "s\<lparr>lastKeyState := (lastKeyState s)(k := True)\<rparr>" k]
      press_eeprom [of k "s\<lparr>lastKeyState := (lastKeyState s)(k := True)\<rparr>"]
    by (intro exI [of _ "emitted (s\<lparr>lastKeyState := (lastKeyState s)(k := True)\<rparr>)
            (press k (s\<lparr>lastKeyState := (lastKeyState s)(k := True)\<rparr>))"]
          exI [of _ "[KeyDown k]"]) (auto simp add: press_calls)
  show "no_store_without_F1 s (release k (s\<lparr>lastKeyState := (lastKeyState s)(k := False)\<rparr>))"
    for s k
    unfolding no_store_without_F1_def
    using release_log_prefix [of k "s\<lparr>lastKeyState := (lastKeyState s)(k := False)\<rparr>"]
    by (intro exI [of _ "emitted (s\<lparr>lastKeyState := (lastKeyState s)(k := False)\<rparr>)
            (release k (s\<lparr>lastKeyState := (lastKeyState s)(k := False)\<rparr>))"]
          exI [of _ "[KeyUp k]"])
       (simp add: release_calls release_eeprom release_eeprom_writes)
  show "no_store_without_F1 s (emit x s)" if "is_pin_or_delay x" for s x
    using that unfolding no_store_without_F1_def
    by (intro exI [of _ "[x]"] exI [of _ "[]"]) (cases x; simp add: emit_def eeprom_writes_simps)
  show "no_store_without_F1 s (s\<lparr>lastDebounceTime := (lastDebounceTime s)(r * 10 + 8 := t)\<rparr>)"
    for s r t
    by (simp add: no_store_without_F1_def eeprom_writes_simps)
qed

lemma no_store_without_F1_D:
  assumes "no_store_without_F1 s s'" and "KeyDown 4 \<notin> set (dispatched s s')"
  shows "eeprom_writes (emitted s s') = [] \<and> eeprom s' = eeprom s"
  using assms unfolding no_store_without_F1_def dispatched_def emitted_def by auto

subsection \<open>What one pass dispatches\<close>

lemma key_transition_calls:
  "calls (key_transition d k s) =
     calls s @ (if d \<and> \<not> lastKeyState s k then [KeyDown k]
                else if \<not> d \<and> lastKeyState s k then [KeyUp k] else [])"
  by (simp add: key_transition_def press_calls release_calls)

lemma cell_events_cong:
  "lastDebounceTime s' (col + row * 10) = lastDebounceTime s (col + row * 10) \<Longrightarrow>
   lastKeyState s' (col + row * 10) = lastKeyState s (col + row * 10) \<Longrightarrow>
   cell_events e s' row col = cell_events e s row col"
  by (simp add: cell_events_def)

lemma scan_cols_calls:
  assumes "row < 8" and "col \<le> scanned_cols row"
  shows "calls (scan_cols e row col s) =
           calls s @ concat (map (cell_events e s row) [col..<scanned_cols row])
         \<and> (\<forall>k. k div 10 \<noteq> row \<or> k mod 10 < col \<longrightarrow>
                lastKeyState (scan_cols e row col s) k = lastKeyState s k)"
  using assms(2)
proof (induction "scanned_cols row - col" arbitrary: col s)
  case 0
  then have c: "col = scanned_cols row" by simp
  show ?case
  proof (cases "row = 6")
    case True
    with c show ?thesis by (simp add: scanned_cols_def scan_cols_done)
  next
    case False
    with c show ?thesis by (simp add: scanned_cols_def scan_cols_break)
  qed
next
  case (Suc n)
  then have lt: "col < scanned_cols row" and nxt: "n = scanned_cols row - (col + 1)"
    and le: "col + 1 \<le> scanned_cols row"
    by simp_all
  from lt have col: "col < 9" and ok: "col = 8 \<longrightarrow> row = 6"
    by (auto simp add: scanned_cols_def split: if_splits)
  let ?k = "col + row * 10"
  let ?x = "s\<lparr>thisKey := ?k, isKeyDown := keyDown e row col\<rparr>"
  have upt: "[col..<scanned_cols row] = col # [col + 1..<scanned_cols row]"
    using lt by (simp add: upt_conv_Cons)
  have later: "cell_events e t row c = cell_events e s row c"
    if "lastDebounceTime t = lastDebounceTime s"
      and "\<And>j. j \<noteq> ?k \<Longrightarrow> lastKeyState t j = lastKeyState s j"
      and "c \<in> set [col + 1..<scanned_cols row]" for t c
    using that by (intro cell_events_cong) simp_all
  have kpos: "k div 10 \<noteq> row \<or> k mod 10 < col \<Longrightarrow> k \<noteq> ?k" for k
    using col by auto
  show ?case
  proof (cases "millis_at e row col < lastDebounceTime s ?k + 5")
    case True
    have here: "cell_events e s row col = []"
      using True by (simp add: cell_events_def)
    have IH: "calls (scan_cols e row (col + 1) ?x) =
           calls ?x @ concat (map (cell_events e ?x row) [col + 1..<scanned_cols row])
         \<and> (\<forall>k. k div 10 \<noteq> row \<or> k mod 10 < col + 1 \<longrightarrow>
                lastKeyState (scan_cols e row (col + 1) ?x) k = lastKeyState ?x k)"
      by (rule Suc.hyps(1) [OF nxt le])
    have m: "map (cell_events e ?x row) [col + 1..<scanned_cols row] =
             map (cell_events e s row) [col + 1..<scanned_cols row]"
      by (rule map_cong [OF HOL.refl]) (rule later, simp_all)
    show ?thesis
      using IH
      by (simp only: scan_cols_continue [OF col ok True] upt m)
         (auto simp add: here intro: less_SucI)
  next
    case False
    let ?y = "key_transition (keyDown e row col) ?k ?x"
    have here: "calls ?y = calls s @ cell_events e s row col"
      using False by (simp add: key_transition_calls cell_events_def)
    have IH: "calls (scan_cols e row (col + 1) ?y) =
           calls ?y @ concat (map (cell_events e ?y row) [col + 1..<scanned_cols row])
         \<and> (\<forall>k. k div 10 \<noteq> row \<or> k mod 10 < col + 1 \<longrightarrow>
                lastKeyState (scan_cols e row (col + 1) ?y) k = lastKeyState ?y k)"
      by (rule Suc.hyps(1) [OF nxt le])
    have m: "map (cell_events e ?y row) [col + 1..<scanned_cols row] =
             map (cell_events e s row) [col + 1..<scanned_cols row]"
      by (rule map_cong [OF HOL.refl])
         (rule later, simp_all add: key_transition_frame key_transition_lastKeyState)
    have lks: "lastKeyState ?y k = lastKeyState s k" if "k div 10 \<noteq> row \<or> k mod 10 < col" for k
      using kpos [OF that] by (simp add: key_transition_lastKeyState)
    show ?thesis
      using IH lks
      by (simp only: scan_cols_process [OF col ok False] upt m here)
         (auto intro: less_SucI)
  qed
qed

lemma row_events_cong:
  assumes "\<And>col. col < 9 \<Longrightarrow>
             lastDebounceTime s' (col + row * 10) = lastDebounceTime s (col + row * 10)"
    and "\<And>col. col < 9 \<Longrightarrow>
             lastKeyState s' (col + row * 10) = lastKeyState s (col + row * 10)"
  shows "row_events e s' row = row_events e s row"
proof -
  have "map (cell_events e s' row) [0..<scanned_cols row] =
        map (cell_events e s row) [0..<scanned_cols row]"
    by (rule map_cong [OF HOL.refl], rule cell_events_cong)
       (use assms in \<open>auto simp add: scanned_cols_def split: if_splits\<close>)
  then show ?thesis by (simp only: row_events_def)
qed

lemma scan_rows_calls:
  assumes "row \<le> 8"
  shows "calls (scan_rows e row s) = calls s @ concat (map (row_events e s) [row..<8])"
  using assms
proof (induction "8 - row" arbitrary: row s)
  case 0
  then show ?case by (simp add: scan_rows_done)
next
  case (Suc n)
  then have row: "row < 8" and nxt: "n = 8 - (row + 1)" and le: "row + 1 \<le> 8" by simp_all
  let ?p = "Pin (rowPinMap ! row)"
  let ?a = "emit (DigitalWrite ?p LOW) (emit (PinMode ?p OUTPUT) s)"
  let ?b = "scan_cols e row 0 ?a"
  let ?c = "?b\<lparr>lastDebounceTime := (lastDebounceTime ?b)(row * 10 + 8 := millis_end e row)\<rparr>"
  let ?d = "emit (PinMode ?p INPUT_PULLUP) (emit (Delay 1) (emit (DigitalWrite ?p HIGH) ?c))"
  have cols: "calls ?b = calls ?a @ concat (map (cell_events e ?a row) [0..<scanned_cols row])
         \<and> (\<forall>k. k div 10 \<noteq> row \<or> k mod 10 < 0 \<longrightarrow> lastKeyState ?b k = lastKeyState ?a k)"
    by (rule scan_cols_calls [OF row]) simp
  have ra: "row_events e ?a row = row_events e s row"
    by (rule row_events_cong) (simp_all add: emit_def)
  have calls_d: "calls ?d = calls s @ row_events e s row"
    using cols ra by (simp add: emit_def row_events_def)
  have ldt_d: "lastDebounceTime ?d = (lastDebounceTime s)(row * 10 + 8 := millis_end e row)"
    by (simp add: emit_def scan_cols_lastDebounceTime [OF row])
  have lks_d: "lastKeyState ?d k = lastKeyState s k" if "k div 10 \<noteq> row" for k
    using cols that by (simp add: emit_def)
  have later: "row_events e ?d r = row_events e s r" if "r \<in> set [row + 1..<8]" for r
  proof (rule row_events_cong)
    fix col :: nat
    assume "col < 9"
    with that have ne: "col + r * 10 \<noteq> row * 10 + 8" and d: "(col + r * 10) div 10 \<noteq> row"
      by auto
    show "lastDebounceTime ?d (col + r * 10) = lastDebounceTime s (col + r * 10)"
      using ne by (simp only: ldt_d fun_upd_apply if_False)
    show "lastKeyState ?d (col + r * 10) = lastKeyState s (col + r * 10)"
      by (rule lks_d [OF d])
  qed
  have m: "map (row_events e ?d) [row + 1..<8] = map (row_events e s) [row + 1..<8]"
    by (rule map_cong [OF HOL.refl]) (rule later)
  have upt: "[row..<8] = row # [row + 1..<8]"
    using row by (simp add: upt_conv_Cons)
  have "calls (scan_rows e (row + 1) ?d) =
          calls ?d @ concat (map (row_events e ?d) [row + 1..<8])"
    by (rule Suc.hyps(1) [OF nxt le])
  then show ?case
    by (simp only: scan_rows_step [OF row] m calls_d upt) simp
qed

lemma loop_calls: "calls (loop e s) = calls s @ sweep_events e s"
proof -
  let ?s = "s\<lparr>thisKey := 0, isKeyDown := False\<rparr>"
  have m: "map (row_events e ?s) [0..<8] = map (row_events e s) [0..<8]"
    by (rule map_cong [OF HOL.refl], rule row_events_cong) simp_all
  have "calls (loop e s) = calls ?s @ concat (map (row_events e ?s) [0..<8])"
    unfolding loop_def by (rule scan_rows_calls) simp
  then have "calls (loop e s) = calls ?s @ concat (map (row_events e s) [0..<8])"
    by (simp only: m)
  then show ?thesis by (simp add: sweep_events_def)
qed

lemma loop_dispatched: "dispatched s (loop e s) = sweep_events e s"
  by (simp add: dispatched_def loop_calls)





subsection \<open>Debounce\<close>

lemma booted_scan_fields:
  "lastKeyState (booted b) = (\<lambda>_. False)" "lastDebounceTime (booted b) = (\<lambda>_. 0)"
  by (simp_all add: boot_defs fun_eq_iff) 

lemma upt_8: "[0..<8] = [0, 1, 2, 3, 4, 5, 6, 7]"
  by code_simp

lemma upt_9: "[0..<9] = [0, 1, 2, 3, 4, 5, 6, 7, 8]"
  by code_simp

lemmas sweep_defs = sweep_events_def row_events_def scanned_cols_def cell_events_def
  upt_8 upt_9


subsection \<open>The RESTORE column\<close>

lemma sweep_events_keys:
  assumes "ev \<in> set (sweep_events e s)"
  shows "\<exists>row col. row < 8 \<and> col < scanned_cols row \<and> event_key ev = col + row * 10"
proof -
  from assms obtain row where row: "row < 8" and "ev \<in> set (row_events e s row)"
    by (auto simp add: sweep_events_def)
  then obtain col where "col < scanned_cols row" and "ev \<in> set (cell_events e s row col)"
    by (auto simp add: row_events_def)
  then have "col < scanned_cols row \<and> event_key ev = col + row * 10"
    by (auto simp add: cell_events_def split: if_splits)
  with row show ?thesis by blast
qed

lemma idle_row_events:
  assumes "\<And>col. col < 8 \<Longrightarrow> keyDown e row col = lastKeyState s (col + row * 10)"
    and "row \<noteq> 6"
  shows "row_events e s row = []"
proof -
  have "cell_events e s row col = []" if "col < 8" for col
    using assms(1) [OF that] by (simp add: cell_events_def)
  then show ?thesis
    using assms(2) by (simp add: row_events_def scanned_cols_def)
qed

lemma restore_row_events:
  assumes "\<And>col. col < 8 \<Longrightarrow> keyDown e 6 col = lastKeyState s (col + 6 * 10)"
    and "keyDown e 6 8" and "\<not> lastKeyState s 68"
    and "\<not> millis_at e 6 8 < lastDebounceTime s 68 + 5"
  shows "row_events e s 6 = [KeyDown 68]"
proof -
  have "cell_events e s 6 col = []" if "col < 8" for col
    using assms(1) [OF that] by (simp add: cell_events_def)
  moreover have "cell_events e s 6 8 = [KeyDown 68]"
    using assms(2-4) by (simp add: cell_events_def)
  ultimately show ?thesis
    by (simp add: row_events_def scanned_cols_def upt_9)
qed

text \<open>
  C5. No pass of the scan loop dispatches an event for a position of column 8 other
  than 68. When column 8 reads down in every row, no other cell changes, Restore
  was up before and is outside its debounce test, the pass dispatches exactly one event:
  the press of position 68.
\<close>

theorem restore_column_filter:
  "(\<forall>ev \<in> set (dispatched s (loop e s)). event_key ev mod 10 = 8 \<longrightarrow> event_key ev = 68)
   \<and> ((\<forall>row < 8. keyDown e row 8)
        \<and> (\<forall>row < 8. \<forall>col < 8. keyDown e row col = lastKeyState s (col + row * 10))
        \<and> \<not> lastKeyState s 68
        \<and> \<not> millis_at e 6 8 < lastDebounceTime s 68 + debounceDelay
       \<longrightarrow> dispatched s (loop e s) = [KeyDown 68])"
proof (intro conjI ballI impI)
  fix ev
  assume "ev \<in> set (dispatched s (loop e s))" and m: "event_key ev mod 10 = 8"
  then have "ev \<in> set (sweep_events e s)" by (simp add: loop_dispatched)
  then obtain row col where "row < 8" and "col < scanned_cols row"
    and k: "event_key ev = col + row * 10"
    using sweep_events_keys by blast
  then have "col < 9" and "col = 8 \<longrightarrow> row = 6"
    by (auto simp add: scanned_cols_def split: if_splits)
  with m k show "event_key ev = 68" by auto
next
  assume a: "(\<forall>row < 8. keyDown e row 8)
        \<and> (\<forall>row < 8. \<forall>col < 8. keyDown e row col = lastKeyState s (col + row * 10))
        \<and> \<not> lastKeyState s 68
        \<and> \<not> millis_at e 6 8 < lastDebounceTime s 68 + debounceDelay"
  have idle: "row_events e s row = []" if "row < 8" "row \<noteq> 6" for row
    using a that by (intro idle_row_events) simp_all
  have "row_events e s 6 = [KeyDown 68]"
    using a by (intro restore_row_events) simp_all
  then show "dispatched s (loop e s) = [KeyDown 68]"
    by (simp add: loop_dispatched sweep_events_def upt_8 idle)
qed

theorem restore_column_filter_witness:
  "map (\<lambda>row. keyDown restore_grounded row 8) [0, 1, 2, 3, 4, 5, 6, 7]
     = [True, True, True, True, True, True, True, True]
   \<and> dispatched (booted 1) (loop restore_grounded (booted 1)) = [KeyDown 68]
   \<and> emitted (booted 1) (press 68 (booted 1)) = [KbPress (Named KEY_TAB)]"
proof -
  have "dispatched (booted 1) (loop restore_grounded (booted 1)) = [KeyDown 68]"
    using restore_column_filter [of "booted 1" restore_grounded, THEN conjunct2]
    by (simp add: restore_grounded_def booted_scan_fields)
  moreover have "emitted (booted 1) (press 68 (booted 1)) = [KbPress (Named KEY_TAB)]"
    by (simp add: press_def emitted_def prim_defs booted_fields)
  ultimately show ?thesis by (simp add: restore_grounded_def)
qed

subsection \<open>When the EEPROM is written\<close>

lemma setup_eeprom_writes:
  "eeprom_writes (log (setup_sketch led (power_on ee))) =
     (if 1 \<le> uint (ee 0) \<and> uint (ee 0) \<le> 4 then [] else [EepromWrite 0 1])"
  by (cases led)
     (auto simp add: setup_sketch_def power_on_def rowPinMap_def colPinMap_def blinkLED_eq
        setKeymap_fields prim_defs eeprom_writes_append eeprom_writes_blink
        eeprom_writes_simps)

text \<open>
  C8, as the code has it. The EEPROM is written by \<^verbatim>\<open>setup\<close> when the stored byte is
  outside 1..4, and by every press of position 4 (F1) with Commodore held: that press
  stores the target it arrives at, also when this is the target it started from. No
  other press and no release writes, and a pass of the scan loop that does not dispatch
  a press of position 4 writes nothing and leaves the EEPROM as it is.
\<close>

theorem eeprom_written_on_trigger_only:
  "eeprom_writes (log (setup_sketch led (power_on ee))) =
     (if 1 \<le> uint (ee 0) \<and> uint (ee 0) \<le> 4 then [] else [EepromWrite 0 1])
   \<and> eeprom_writes (emitted s (press key s)) =
     (if key = 4 \<and> cmdrPressed s
      then [EepromWrite 0 (word_of_int (target (press key s)))] else [])
   \<and> eeprom_writes (emitted s (release key s)) = []
   \<and> (KeyDown 4 \<notin> set (dispatched s (loop e s)) \<longrightarrow>
        eeprom_writes (emitted s (loop e s)) = [] \<and> eeprom (loop e s) = eeprom s)"
  using setup_eeprom_writes [of led ee] press_eeprom_writes [of s key]
    release_eeprom_writes [of s key]
    no_store_without_F1_D [OF loop_no_store_without_F1, of s e]
  by blast

lemma reset_chord_fields:
  "cmdrPressed reset_chord" "ctrlPressed reset_chord" "target reset_chord = 1"
  by (simp_all add: reset_chord_def press_modifier_fields booted_fields)

theorem eeprom_written_without_change:
  "target (press 4 reset_chord) = target reset_chord
   \<and> eeprom_writes (emitted reset_chord (press 4 reset_chord)) = [EepromWrite 0 1]"
  by (simp add: press_eeprom_writes press_F1_target reset_chord_fields)

theorem eeprom_written_on_trigger_only_witness:
  "eeprom_writes (emitted reset_chord (press 4 reset_chord)) = [EepromWrite 0 1]
   \<and> eeprom_writes (emitted reset_chord (press 3 reset_chord)) = []
   \<and> KeyDown 4 \<notin> set (dispatched (booted 1) (loop return_down (booted 1)))
   \<and> eeprom_writes (emitted (booted 1) (loop return_down (booted 1))) = []
   \<and> eeprom (loop return_down (booted 1)) = eeprom (booted 1)"
proof -
  have d: "dispatched (booted 1) (loop return_down (booted 1)) = [KeyDown 1]"
    by (simp add: loop_dispatched booted_scan_fields sweep_defs return_down_def)
  have t: "target (press 4 reset_chord) = 1"
    by (simp add: press_F1_target reset_chord_fields)
  show ?thesis
    using eeprom_written_on_trigger_only [of HIGH "\<lambda>_. 1" reset_chord 4 return_down]
      eeprom_written_on_trigger_only [of HIGH "\<lambda>_. 1" reset_chord 3 return_down]
      eeprom_written_on_trigger_only [of HIGH "\<lambda>_. 1" "booted 1" 3 return_down]
    by (simp add: d t reset_chord_fields)
qed

end
